theory Spec2Isabelle
  imports Complex_Main "HOL-Library.Word"
begin

unbundle bit_operations_syntax

section \<open>The orthtree node store\<close>

text \<open>
  The embedding follows \<^verbatim>\<open>Orthtree.h\<close> and \<^verbatim>\<open>Orthtree/Traversals.h\<close>.
  The template parameter \<^verbatim>\<open>Dimension::value\<close> is the field \<open>Dimension\<close> of the tree.
  The property arrays of the node store are lists indexed by node index, one list per
  property as in the source. Node contents and the traits callback that redistributes
  them are opaque to the tree structure and are left out. The number type \<^verbatim>\<open>FT\<close> of
  the kernel is taken exact (the rationals).

  Precondition macros and dereferences of an empty optional are error values; a loop
  that the source does not bound is a partial function, whose value \<open>None\<close> means that
  it does not return.
\<close>

datatype error =
    InvalidSplit
  | InvalidParentAccess
  | InvalidChildAccess
  | InvalidDirection
  | OutOfBounds
  | EmptyOptionalAccess

type_synonym Node_index = nat
type_synonym Maybe_node_index = "nat option"
type_synonym Local_coordinates = nat
type_synonym Global_coordinates = "32 word list"
type_synonym FT = rat

record orthtree =
  Dimension :: nat
  m_node_depths :: "8 word list"
  m_node_coordinates :: "Global_coordinates list"
  m_node_parents :: "Maybe_node_index list"
  m_node_children :: "Maybe_node_index list"
  m_bbox_min :: "FT list"
  m_bbox_max :: "FT list"
  m_side_per_depth :: "FT list list"

text \<open>
  A \<^verbatim>\<open>std::bitset<D>\<close> is the natural number its \<^verbatim>\<open>to_ulong()\<close> returns; bit \<open>i\<close> of the
  bitset is \<open>bit b i\<close>. Constructing a bitset from an integer keeps the low \<open>D\<close> bits.
\<close>

definition bitset :: "nat \<Rightarrow> nat \<Rightarrow> Local_coordinates" where
  "bitset D v = take_bit D v"

text \<open>\<^verbatim>\<open>Degree = 2 << (Dimension - 1)\<close>.\<close>

definition Degree :: "orthtree \<Rightarrow> nat" where
  "Degree t = push_bit (Dimension t - 1) 2"

text \<open>
  The constructor: one node with default properties (depth 0, zero coordinates, no
  parent, no children), the root bounding box and its side lengths as entry 0 of the
  side-length table.
\<close>

definition Orthtree :: "nat \<Rightarrow> FT list \<Rightarrow> FT list \<Rightarrow> orthtree" where
  "Orthtree D bmin bmax =
     \<lparr> Dimension = D,
       m_node_depths = [0],
       m_node_coordinates = [replicate D 0],
       m_node_parents = [None],
       m_node_children = [None],
       m_bbox_min = bmin,
       m_bbox_max = bmax,
       m_side_per_depth = [map (\<lambda>i. bmax ! i - bmin ! i) [0..<D]] \<rparr>"

definition number_of_nodes :: "orthtree \<Rightarrow> nat" where
  "number_of_nodes t = length (m_node_depths t)"

definition root :: Node_index where
  "root = 0"

definition is_leaf :: "orthtree \<Rightarrow> Node_index \<Rightarrow> bool" where
  "is_leaf t n = (m_node_children t ! n = None)"

definition is_root :: "Node_index \<Rightarrow> bool" where
  "is_root n = (n = 0)"

text \<open>\<^verbatim>\<open>depth(n)\<close> widens the stored 8-bit depth to \<^verbatim>\<open>std::size_t\<close>.\<close>

definition depth :: "orthtree \<Rightarrow> Node_index \<Rightarrow> nat" where
  "depth t n = unat (m_node_depths t ! n)"

definition global_coordinates :: "orthtree \<Rightarrow> Node_index \<Rightarrow> Global_coordinates" where
  "global_coordinates t n = m_node_coordinates t ! n"

text \<open>\<^verbatim>\<open>result[i] = global_coordinates(n)[i] & 1\<close> for every \<open>i < D\<close>.\<close>

definition local_coordinates :: "orthtree \<Rightarrow> Node_index \<Rightarrow> Local_coordinates" where
  "local_coordinates t n =
     horner_sum of_bool 2
       (map (\<lambda>i. global_coordinates t n ! i AND 1 \<noteq> 0) [0..<Dimension t])"

definition parent :: "orthtree \<Rightarrow> Node_index \<Rightarrow> error + Node_index" where
  "parent t n =
     (if is_root n then Inl InvalidParentAccess
      else case m_node_parents t ! n of
             None \<Rightarrow> Inl EmptyOptionalAccess
           | Some p \<Rightarrow> Inr p)"

text \<open>\<^verbatim>\<open>*m_node_children[n] + i\<close> is an addition of \<^verbatim>\<open>std::size_t\<close> (64 bits).\<close>

definition child :: "orthtree \<Rightarrow> Node_index \<Rightarrow> nat \<Rightarrow> error + Node_index" where
  "child t n i =
     (case m_node_children t ! n of
        None \<Rightarrow> Inl InvalidChildAccess
      | Some fc \<Rightarrow> Inr (take_bit 64 (fc + i)))"

text \<open>The loops \<^verbatim>\<open>for (i = 0; i < Degree; ++i) todo.push(child(n, i))\<close>.\<close>

fun children_from :: "orthtree \<Rightarrow> Node_index \<Rightarrow> nat list \<Rightarrow> error + Node_index list" where
  "children_from t n [] = Inr []"
| "children_from t n (i # js) =
     (case child t n i of
        Inl e \<Rightarrow> Inl e
      | Inr c \<Rightarrow> (case children_from t n js of
                    Inl e \<Rightarrow> Inl e
                  | Inr cs \<Rightarrow> Inr (c # cs)))"

definition all_children :: "orthtree \<Rightarrow> Node_index \<Rightarrow> error + Node_index list" where
  "all_children t n = children_from t n [0..<Degree t]"

subsection \<open>Splitting\<close>

text \<open>
  Modelled from the spec: \<^verbatim>\<open>Property_container::emplace_group\<close> is not part of the
  sources at hand. \<open>emplace_group(n)\<close> allocates \<open>n\<close> contiguous new indices and returns
  the first; the property arrays grow in lockstep, the new entries holding the default
  of each property.
\<close>

definition emplace_group :: "orthtree \<Rightarrow> nat \<Rightarrow> Node_index \<times> orthtree" where
  "emplace_group t k =
     (number_of_nodes t,
      t\<lparr> m_node_depths := m_node_depths t @ replicate k 0,
         m_node_coordinates := m_node_coordinates t @ replicate k (replicate (Dimension t) 0),
         m_node_parents := m_node_parents t @ replicate k None,
         m_node_children := m_node_children t @ replicate k None \<rparr>)"

text \<open>
  The body of the loop over the new children in \<^verbatim>\<open>split\<close>: child \<open>i\<close> gets the
  coordinates \<open>2 * parent + local_coordinates{i}[j]\<close> (32-bit), the depth of the parent
  plus one (8-bit) and its parent index.
\<close>

definition init_child :: "Node_index \<Rightarrow> nat \<Rightarrow> orthtree \<Rightarrow> orthtree" where
  "init_child n i t =
     (let c = the (m_node_children t ! n) + i;
          lc = bitset (Dimension t) i
      in t\<lparr> m_node_coordinates := (m_node_coordinates t)
               [c := map (\<lambda>j. 2 * (m_node_coordinates t ! n ! j) + of_bool (bit lc j))
                       [0..<Dimension t]],
            m_node_depths := (m_node_depths t)[c := m_node_depths t ! n + 1],
            m_node_parents := (m_node_parents t)[c := Some n] \<rparr>)"

definition extend_side_per_depth :: "Node_index \<Rightarrow> orthtree \<Rightarrow> orthtree" where
  "extend_side_per_depth n t =
     (if depth t n + 1 = length (m_side_per_depth t)
      then t\<lparr> m_side_per_depth :=
                m_side_per_depth t @ [map (\<lambda>s. s / 2) (last (m_side_per_depth t))] \<rparr>
      else t)"

definition split :: "orthtree \<Rightarrow> Node_index \<Rightarrow> error + orthtree" where
  "split t n =
     (if \<not> is_leaf t n then Inl InvalidSplit
      else
        let (fc, t1) = emplace_group t (Degree t);
            t2 = t1\<lparr> m_node_children := (m_node_children t1)[n := Some fc] \<rparr>;
            t3 = fold (init_child n) [0..<Degree t] t2
        in Inr (extend_side_per_depth n t3))"

subsection \<open>Refinement\<close>

text \<open>
  \<^verbatim>\<open>refine\<close>: the queue starts with the root; a dequeued node is split when the
  predicate holds for it, and its children are enqueued when it has any.
\<close>

partial_function (option) refine_loop ::
  "(Node_index \<Rightarrow> orthtree \<Rightarrow> bool) \<Rightarrow> Node_index list \<Rightarrow> orthtree \<Rightarrow> (error + orthtree) option"
where
  "refine_loop split_predicate todo t =
     (case todo of
        [] \<Rightarrow> Some (Inr t)
      | current # rest \<Rightarrow>
          (case (if split_predicate current t then split t current else Inr t) of
             Inl e \<Rightarrow> Some (Inl e)
           | Inr t' \<Rightarrow>
               if \<not> is_leaf t' current
               then (case all_children t' current of
                       Inl e \<Rightarrow> Some (Inl e)
                     | Inr cs \<Rightarrow> refine_loop split_predicate (rest @ cs) t')
               else refine_loop split_predicate rest t'))"

declare refine_loop.simps [code]

definition refine :: "(Node_index \<Rightarrow> orthtree \<Rightarrow> bool) \<Rightarrow> orthtree \<Rightarrow> (error + orthtree) option" where
  "refine split_predicate t = refine_loop split_predicate [0] t"

subsection \<open>Siblings and first children\<close>

definition next_sibling :: "orthtree \<Rightarrow> Node_index \<Rightarrow> error + Maybe_node_index" where
  "next_sibling t n =
     (if is_root n then Inr None
      else
        let local_coords = local_coordinates t n
        in if int local_coords = int (Degree t) - 1 then Inr None
           else case parent t n of
                  Inl e \<Rightarrow> Inl e
                | Inr p \<Rightarrow> (case child t p (local_coords + 1) of
                             Inl e \<Rightarrow> Inl e
                           | Inr c \<Rightarrow> Inr (Some c)))"

partial_function (option) next_sibling_up_loop ::
  "orthtree \<Rightarrow> Maybe_node_index \<Rightarrow> (error + Maybe_node_index) option"
where
  "next_sibling_up_loop t up =
     (case up of
        None \<Rightarrow> Some (Inr None)
      | Some u \<Rightarrow>
          (case next_sibling t u of
             Inl e \<Rightarrow> Some (Inl e)
           | Inr (Some s) \<Rightarrow> Some (Inr (Some s))
           | Inr None \<Rightarrow>
               if is_root u then next_sibling_up_loop t None
               else (case parent t u of
                       Inl e \<Rightarrow> Some (Inl e)
                     | Inr p \<Rightarrow> next_sibling_up_loop t (Some p))))"

declare next_sibling_up_loop.simps [code]

definition next_sibling_up :: "orthtree \<Rightarrow> Node_index \<Rightarrow> (error + Maybe_node_index) option" where
  "next_sibling_up t n =
     (if n = 0 then Some (Inr None)
      else case parent t n of
             Inl e \<Rightarrow> Some (Inl e)
           | Inr p \<Rightarrow> next_sibling_up_loop t (Some p))"

partial_function (option) deepest_first_child ::
  "orthtree \<Rightarrow> Node_index \<Rightarrow> (error + Node_index) option"
where
  "deepest_first_child t first =
     (if \<not> is_leaf t first
      then (case child t first 0 of
              Inl e \<Rightarrow> Some (Inl e)
            | Inr c \<Rightarrow> deepest_first_child t c)
      else Some (Inr first))"

declare deepest_first_child.simps [code]

partial_function (option) first_child_at_depth_loop ::
  "orthtree \<Rightarrow> nat \<Rightarrow> Node_index list \<Rightarrow> (error + Maybe_node_index) option"
where
  "first_child_at_depth_loop t d todo =
     (case todo of
        [] \<Rightarrow> Some (Inr None)
      | node # rest \<Rightarrow>
          if depth t node = d then Some (Inr (Some node))
          else if \<not> is_leaf t node
          then (case all_children t node of
                  Inl e \<Rightarrow> Some (Inl e)
                | Inr cs \<Rightarrow> first_child_at_depth_loop t d (rest @ cs))
          else first_child_at_depth_loop t d rest)"

declare first_child_at_depth_loop.simps [code]

definition first_child_at_depth ::
  "orthtree \<Rightarrow> Node_index \<Rightarrow> nat \<Rightarrow> (error + Maybe_node_index) option" where
  "first_child_at_depth t n d = first_child_at_depth_loop t d [n]"

subsection \<open>Adjacency\<close>

text \<open>
  \<^verbatim>\<open>adjacent_node(n, direction)\<close>. The axis is read into a \<^verbatim>\<open>uint8_t\<close>, the offset
  \<^verbatim>\<open>(uint8_t) 1 << dimension\<close> is stored in an \<^verbatim>\<open>int8_t\<close>, and it is added to (or
  subtracted from) the \<^verbatim>\<open>unsigned long\<close> value of the local coordinates.
\<close>

definition adjacency_offset :: "nat \<Rightarrow> bool \<Rightarrow> int" where
  "adjacency_offset dimension sign =
     (let offset = sint (push_bit dimension 1 :: 8 word)
      in sint (word_of_int (if sign then offset else - offset) :: 8 word))"

definition some_child :: "orthtree \<Rightarrow> Node_index \<Rightarrow> nat \<Rightarrow> error + Maybe_node_index" where
  "some_child t n i = (case child t n i of Inl e \<Rightarrow> Inl e | Inr c \<Rightarrow> Inr (Some c))"

partial_function (option) adjacent_node ::
  "orthtree \<Rightarrow> Node_index \<Rightarrow> Local_coordinates \<Rightarrow> (error + Maybe_node_index) option"
where
  "adjacent_node t n direction =
     (if \<not> direction < Dimension t * 2 then Some (Inl InvalidDirection)
      else if is_root n then Some (Inr None)
      else
        let sign = bit direction 0;
            dimension = drop_bit 1 direction mod 256;
            offset = adjacency_offset dimension sign;
            lc = local_coordinates t n
        in case parent t n of
             Inl e \<Rightarrow> Some (Inl e)
           | Inr p \<Rightarrow>
               if bit lc dimension \<noteq> sign
               then Some (some_child t p (nat (take_bit 64 (int lc + offset))))
               else Option.bind (adjacent_node t p direction)
                      (\<lambda>adjacent_node_of_parent.
                         case adjacent_node_of_parent of
                           Inl e \<Rightarrow> Some (Inl e)
                         | Inr None \<Rightarrow> Some (Inr None)
                         | Inr (Some a) \<Rightarrow>
                             if is_leaf t a then Some (Inr (Some a))
                             else Some (some_child t a (nat (take_bit 64 (int lc - offset))))))"

declare adjacent_node.simps [code]

subsection \<open>Traversals\<close>

text \<open>
  Modelled from the spec: \<^verbatim>\<open>Index_traversal_iterator\<close> is not part of the sources at
  hand. A traversal is the sequence that starts at \<open>first_index()\<close> and follows
  \<open>next_index\<close> until it returns nothing.
\<close>

partial_function (option) traverse_from ::
  "(Node_index \<Rightarrow> (error + Maybe_node_index) option) \<Rightarrow> Node_index \<Rightarrow> (error + Node_index list) option"
where
  "traverse_from next_index n =
     Option.bind (next_index n)
       (\<lambda>r. case r of
               Inl e \<Rightarrow> Some (Inl e)
             | Inr None \<Rightarrow> Some (Inr [n])
             | Inr (Some m) \<Rightarrow>
                 Option.bind (traverse_from next_index m)
                   (\<lambda>rs. case rs of
                            Inl e \<Rightarrow> Some (Inl e)
                          | Inr ns \<Rightarrow> Some (Inr (n # ns))))"

declare traverse_from.simps [code]

definition traverse ::
  "(error + Node_index) option \<Rightarrow> (Node_index \<Rightarrow> (error + Maybe_node_index) option)
     \<Rightarrow> (error + Node_index list) option" where
  "traverse first_index next_index =
     Option.bind first_index
       (\<lambda>r. case r of
               Inl e \<Rightarrow> Some (Inl e)
             | Inr first \<Rightarrow> traverse_from next_index first)"

definition Preorder_first_index :: "orthtree \<Rightarrow> (error + Node_index) option" where
  "Preorder_first_index t = Some (Inr root)"

definition Preorder_next_index :: "orthtree \<Rightarrow> Node_index \<Rightarrow> (error + Maybe_node_index) option" where
  "Preorder_next_index t n =
     (if is_leaf t n
      then (case next_sibling t n of
              Inl e \<Rightarrow> Some (Inl e)
            | Inr None \<Rightarrow> next_sibling_up t n
            | Inr (Some s) \<Rightarrow> Some (Inr (Some s)))
      else Some (some_child t n 0))"

definition Preorder_traversal :: "orthtree \<Rightarrow> (error + Node_index list) option" where
  "Preorder_traversal t = traverse (Preorder_first_index t) (Preorder_next_index t)"

definition Leaves_first_index :: "orthtree \<Rightarrow> (error + Node_index) option" where
  "Leaves_first_index t = deepest_first_child t root"

definition some_deepest_first_child ::
  "orthtree \<Rightarrow> Node_index \<Rightarrow> (error + Maybe_node_index) option" where
  "some_deepest_first_child t n =
     Option.bind (deepest_first_child t n)
       (\<lambda>r. case r of Inl e \<Rightarrow> Some (Inl e) | Inr m \<Rightarrow> Some (Inr (Some m)))"

definition Leaves_next_index :: "orthtree \<Rightarrow> Node_index \<Rightarrow> (error + Maybe_node_index) option" where
  "Leaves_next_index t n =
     (case next_sibling t n of
        Inl e \<Rightarrow> Some (Inl e)
      | Inr (Some s) \<Rightarrow> some_deepest_first_child t s
      | Inr None \<Rightarrow>
          Option.bind (next_sibling_up t n)
            (\<lambda>r. case r of
                    Inl e \<Rightarrow> Some (Inl e)
                  | Inr (Some u) \<Rightarrow> some_deepest_first_child t u
                  | Inr None \<Rightarrow> Some (Inr None)))"

definition Leaves_traversal :: "orthtree \<Rightarrow> (error + Node_index list) option" where
  "Leaves_traversal t = traverse (Leaves_first_index t) (Leaves_next_index t)"

text \<open>
  \<^verbatim>\<open>Level_traversal::first_index\<close> dereferences the optional that
  \<^verbatim>\<open>first_child_at_depth\<close> returns.
\<close>

definition Level_first_index :: "orthtree \<Rightarrow> nat \<Rightarrow> (error + Node_index) option" where
  "Level_first_index t m_depth =
     Option.bind (first_child_at_depth t root m_depth)
       (\<lambda>r. case r of
               Inl e \<Rightarrow> Some (Inl e)
             | Inr None \<Rightarrow> Some (Inl EmptyOptionalAccess)
             | Inr (Some n) \<Rightarrow> Some (Inr n))"

partial_function (option) Level_next_up ::
  "orthtree \<Rightarrow> nat \<Rightarrow> Node_index \<Rightarrow> (error + Maybe_node_index) option"
where
  "Level_next_up t m_depth up =
     Option.bind (next_sibling_up t up)
       (\<lambda>r. case r of
               Inl e \<Rightarrow> Some (Inl e)
             | Inr None \<Rightarrow> Some (Inr None)
             | Inr (Some u) \<Rightarrow>
                 Option.bind (first_child_at_depth t u m_depth)
                   (\<lambda>r'. case r' of
                            Inl e \<Rightarrow> Some (Inl e)
                          | Inr (Some nx) \<Rightarrow> Some (Inr (Some nx))
                          | Inr None \<Rightarrow> Level_next_up t m_depth u))"

declare Level_next_up.simps [code]

definition Level_next_index ::
  "orthtree \<Rightarrow> nat \<Rightarrow> Node_index \<Rightarrow> (error + Maybe_node_index) option" where
  "Level_next_index t m_depth n =
     (case next_sibling t n of
        Inl e \<Rightarrow> Some (Inl e)
      | Inr (Some s) \<Rightarrow> Some (Inr (Some s))
      | Inr None \<Rightarrow> Level_next_up t m_depth n)"

definition Level_traversal :: "orthtree \<Rightarrow> nat \<Rightarrow> (error + Node_index list) option" where
  "Level_traversal t m_depth =
     traverse (Level_first_index t m_depth) (Level_next_index t m_depth)"

subsection \<open>Grading\<close>

text \<open>
  The loop \<^verbatim>\<open>for (int direction = 0; direction < 6; ++direction)\<close> of \<^verbatim>\<open>grade\<close>; each
  \<^verbatim>\<open>int\<close> becomes the \<^verbatim>\<open>std::bitset<D>\<close> that \<^verbatim>\<open>adjacent_node\<close> takes. The depth
  difference is a subtraction of \<^verbatim>\<open>std::size_t\<close>.
\<close>

definition grade_directions :: "orthtree \<Rightarrow> Local_coordinates list" where
  "grade_directions t = map (bitset (Dimension t)) [0..<6]"

definition same_parent :: "orthtree \<Rightarrow> Node_index \<Rightarrow> Node_index \<Rightarrow> error + bool" where
  "same_parent t a b =
     (case parent t a of
        Inl e \<Rightarrow> Inl e
      | Inr pa \<Rightarrow> (case parent t b of Inl e \<Rightarrow> Inl e | Inr pb \<Rightarrow> Inr (pa = pb)))"

fun grade_node ::
  "Node_index \<Rightarrow> Local_coordinates list \<Rightarrow> orthtree \<Rightarrow> Node_index list
     \<Rightarrow> (error + orthtree \<times> Node_index list) option"
where
  "grade_node node [] t leaf_nodes = Some (Inr (t, leaf_nodes))"
| "grade_node node (direction # ds) t leaf_nodes =
     (case adjacent_node t node direction of
        None \<Rightarrow> None
      | Some (Inl e) \<Rightarrow> Some (Inl e)
      | Some (Inr None) \<Rightarrow> grade_node node ds t leaf_nodes
      | Some (Inr (Some neighbor)) \<Rightarrow>
          (case same_parent t neighbor node of
             Inl e \<Rightarrow> Some (Inl e)
           | Inr True \<Rightarrow> grade_node node ds t leaf_nodes
           | Inr False \<Rightarrow>
               if \<not> is_leaf t neighbor then grade_node node ds t leaf_nodes
               else if take_bit 64 (int (depth t node) - int (depth t neighbor)) > 1
               then (case split t neighbor of
                       Inl e \<Rightarrow> Some (Inl e)
                     | Inr t' \<Rightarrow>
                         (case all_children t' neighbor of
                            Inl e \<Rightarrow> Some (Inl e)
                          | Inr cs \<Rightarrow> grade_node node ds t' (leaf_nodes @ cs)))
               else grade_node node ds t leaf_nodes))"

partial_function (option) grade_loop ::
  "Node_index list \<Rightarrow> orthtree \<Rightarrow> (error + orthtree) option"
where
  "grade_loop leaf_nodes t =
     (case leaf_nodes of
        [] \<Rightarrow> Some (Inr t)
      | node # rest \<Rightarrow>
          if \<not> is_leaf t node then grade_loop rest t
          else Option.bind (grade_node node (grade_directions t) t rest)
                 (\<lambda>r. case r of
                         Inl e \<Rightarrow> Some (Inl e)
                       | Inr (t', leaf_nodes') \<Rightarrow> grade_loop leaf_nodes' t'))"

declare grade_loop.simps [code]

definition grade :: "orthtree \<Rightarrow> (error + orthtree) option" where
  "grade t =
     Option.bind (Leaves_traversal t)
       (\<lambda>r. case r of
               Inl e \<Rightarrow> Some (Inl e)
             | Inr leaf_nodes \<Rightarrow> grade_loop leaf_nodes t)"

subsection \<open>Geometry\<close>

text \<open>
  \<^verbatim>\<open>bbox(n)\<close>: \<^verbatim>\<open>last_coord = std::pow(2, node_depth) - 1\<close> is compared with the
  coordinate widened to \<^verbatim>\<open>std::size_t\<close>; the factors \<^verbatim>\<open>int(c)\<close> and \<^verbatim>\<open>int(c + 1)\<close> are
  32-bit signed readings of the 32-bit coordinate.
\<close>

definition bbox :: "orthtree \<Rightarrow> Node_index \<Rightarrow> FT list \<times> FT list" where
  "bbox t n =
     (let node_depth = depth t n;
          size = m_side_per_depth t ! node_depth;
          last_coord = 2 ^ node_depth - 1;
          min_corner = map (\<lambda>i. m_bbox_min t ! i
                                  + of_int (sint (global_coordinates t n ! i)) * size ! i)
                         [0..<Dimension t];
          max_corner = map (\<lambda>i. if unat (global_coordinates t n ! i) = last_coord
                                 then m_bbox_max t ! i
                                 else m_bbox_min t ! i
                                        + of_int (sint (global_coordinates t n ! i + 1)) * size ! i)
                         [0..<Dimension t]
      in (min_corner, max_corner))"

definition barycenter :: "orthtree \<Rightarrow> Node_index \<Rightarrow> FT list" where
  "barycenter t n =
     (let size = m_side_per_depth t ! depth t n
      in map (\<lambda>i. m_bbox_min t ! i
                    + of_int (sint (2 * global_coordinates t n ! i + 1)) * (size ! i / 2))
           [0..<Dimension t])"

subsection \<open>Point location\<close>

text \<open>
  Modelled from the spec: the kernel predicate \<^verbatim>\<open>CGAL::do_intersect(point, bbox)\<close> is not
  part of the sources at hand; \<^verbatim>\<open>locate\<close> requires with it that the point lies within the
  root box, which is the closed box between the two corners.
\<close>

definition do_intersect :: "FT list \<Rightarrow> FT list \<times> FT list \<Rightarrow> bool" where
  "do_intersect point box \<longleftrightarrow>
     (\<forall>i<length point. fst box ! i \<le> point ! i \<and> point ! i \<le> snd box ! i)"

text \<open>
  Modelled from the spec: \<^verbatim>\<open>Cartesian_ranges\<close> is not part of the sources at hand; it pairs
  the coordinates of the centre with those of the point, axis by axis. \<^verbatim>\<open>locate\<close> sets bit
  \<open>i\<close> of the local coordinates to what the half-space predicate of the traits returns for
  the pair of axis \<open>i\<close>. The predicate itself is a parameter.
\<close>

definition locate_local_coords :: "(FT \<Rightarrow> FT \<Rightarrow> bool) \<Rightarrow> FT list \<Rightarrow> FT list \<Rightarrow> Local_coordinates" where
  "locate_local_coords locate_halfspace center point =
     horner_sum of_bool 2 (map (\<lambda>(c, x). locate_halfspace c x) (zip center point))"

partial_function (option) locate_loop ::
  "(FT \<Rightarrow> FT \<Rightarrow> bool) \<Rightarrow> orthtree \<Rightarrow> FT list \<Rightarrow> Node_index \<Rightarrow> (error + Node_index) option"
where
  "locate_loop locate_halfspace t point node_for_point =
     (if \<not> is_leaf t node_for_point
      then
        let center = barycenter t node_for_point;
            local_coords = locate_local_coords locate_halfspace center point
        in case child t node_for_point local_coords of
             Inl e \<Rightarrow> Some (Inl e)
           | Inr c \<Rightarrow> locate_loop locate_halfspace t point c
      else Some (Inr node_for_point))"

declare locate_loop.simps [code]

definition locate ::
  "(FT \<Rightarrow> FT \<Rightarrow> bool) \<Rightarrow> orthtree \<Rightarrow> FT list \<Rightarrow> (error + Node_index) option" where
  "locate locate_halfspace t point =
     (if \<not> do_intersect point (bbox t root) then Some (Inl OutOfBounds)
      else locate_loop locate_halfspace t point root)"


section \<open>Auxiliary notions for the proofs\<close>

text \<open>The coordinates that \<^verbatim>\<open>split\<close> gives to child \<open>i\<close> of a node with coordinates \<open>cs\<close>.\<close>

definition child_coordinates :: "nat \<Rightarrow> Global_coordinates \<Rightarrow> nat \<Rightarrow> Global_coordinates" where
  "child_coordinates D cs i = map (\<lambda>j. 2 * (cs ! j) + of_bool (bit (bitset D i) j)) [0..<D]"

text \<open>The property arrays have one entry per node.\<close>

definition lockstep :: "orthtree \<Rightarrow> bool" where
  "lockstep t \<longleftrightarrow>
     length (m_node_coordinates t) = number_of_nodes t \<and>
     length (m_node_parents t) = number_of_nodes t \<and>
     length (m_node_children t) = number_of_nodes t"

text \<open>The tree that \<^verbatim>\<open>split\<close> returns for a leaf \<open>n\<close>, in closed form.\<close>

definition split_result :: "orthtree \<Rightarrow> Node_index \<Rightarrow> orthtree" where
  "split_result t n =
     extend_side_per_depth n
       (t\<lparr> m_node_depths := m_node_depths t @ replicate (Degree t) (m_node_depths t ! n + 1),
           m_node_coordinates := m_node_coordinates t
              @ map (child_coordinates (Dimension t) (m_node_coordinates t ! n)) [0..<Degree t],
           m_node_parents := m_node_parents t @ replicate (Degree t) (Some n),
           m_node_children := (m_node_children t)[n := Some (number_of_nodes t)]
              @ replicate (Degree t) None \<rparr>)"

section \<open>Well-formed trees\<close>

text \<open>\<^verbatim>\<open>depth()\<close> of the tree: the deepest level reached, \<^verbatim>\<open>m_side_per_depth.size() - 1\<close>.\<close>

definition tree_depth :: "orthtree \<Rightarrow> nat" where
  "tree_depth t = length (m_side_per_depth t) - 1"

text \<open>
  The invariants of the node store for one node: its coordinate array has \<open>D\<close> entries and
  its depth has an entry in the side-length table; the root has no parent, depth 0 and
  zero coordinates; any other node lies in the block of children of its parent, where
  its position gives its coordinates, and is one level deeper (in 8 bits); the block of
  children of an inner node is allocated after the node, within the store, and its
  entries name the node as their parent.
\<close>

definition node_ok :: "orthtree \<Rightarrow> Node_index \<Rightarrow> bool" where
  "node_ok t n \<longleftrightarrow>
     length (m_node_coordinates t ! n) = Dimension t \<and>
     depth t n < length (m_side_per_depth t) \<and>
     (if n = 0
      then m_node_parents t ! n = None \<and> m_node_depths t ! n = 0 \<and>
           m_node_coordinates t ! n = replicate (Dimension t) 0
      else case m_node_parents t ! n of
             None \<Rightarrow> False
           | Some p \<Rightarrow>
               p < n \<and>
               (case m_node_children t ! p of
                  None \<Rightarrow> False
                | Some fc \<Rightarrow>
                    fc \<le> n \<and> n < fc + Degree t \<and>
                    m_node_coordinates t ! n
                      = child_coordinates (Dimension t) (m_node_coordinates t ! p) (n - fc) \<and>
                    m_node_depths t ! n = m_node_depths t ! p + 1)) \<and>
     (case m_node_children t ! n of
        None \<Rightarrow> True
      | Some fc \<Rightarrow>
          n < fc \<and> fc + Degree t \<le> number_of_nodes t \<and>
          depth t n + 1 < length (m_side_per_depth t) \<and>
          (\<forall>i<Degree t. m_node_parents t ! (fc + i) = Some n))"

definition well_formed :: "orthtree \<Rightarrow> bool" where
  "well_formed t \<longleftrightarrow>
     1 \<le> Dimension t \<and> lockstep t \<and> 0 < number_of_nodes t \<and>
     (\<forall>n<number_of_nodes t. node_ok t n)"

text \<open>
  The side-length table: the corners of the root box have \<open>D\<close> coordinates, and entry \<open>k\<close>
  of the table is the size of the root box divided by \<open>2 ^ k\<close> on every axis.
\<close>

definition side_ok :: "orthtree \<Rightarrow> bool" where
  "side_ok t \<longleftrightarrow>
     length (m_bbox_min t) = Dimension t \<and> length (m_bbox_max t) = Dimension t \<and>
     m_side_per_depth t \<noteq> [] \<and>
     (\<forall>k<length (m_side_per_depth t).
        m_side_per_depth t ! k
          = map (\<lambda>i. (m_bbox_max t ! i - m_bbox_min t ! i) / 2 ^ k) [0..<Dimension t])"

text \<open>
  A direction is an axis and a sign bit. A node lies on the boundary of the root region
  in a direction when its coordinate along the axis is 0 (negative direction) or the last
  coordinate \<open>2 ^ depth - 1\<close> of its depth (positive direction).
\<close>

definition direction_axis :: "Local_coordinates \<Rightarrow> nat" where
  "direction_axis direction = drop_bit 1 direction"

definition direction_sign :: "Local_coordinates \<Rightarrow> bool" where
  "direction_sign direction = bit direction 0"

definition opposite :: "Local_coordinates \<Rightarrow> Local_coordinates" where
  "opposite direction = flip_bit 0 direction"

definition on_boundary :: "orthtree \<Rightarrow> Node_index \<Rightarrow> Local_coordinates \<Rightarrow> bool" where
  "on_boundary t n direction =
     (let c = unat (global_coordinates t n ! direction_axis direction)
      in if direction_sign direction then c = 2 ^ depth t n - 1 else c = 0)"

text \<open>
  The trees that the program builds: the constructor's tree for a box of the dimension of
  the tree, and the result of splitting a node of such a tree. Node indices are
  \<^verbatim>\<open>std::size_t\<close>, so a tree has at most \<open>2 ^ 64\<close> nodes.
\<close>

inductive reachable :: "orthtree \<Rightarrow> bool" where
  fresh: "1 \<le> D \<Longrightarrow> length bmin = D \<Longrightarrow> length bmax = D \<Longrightarrow> reachable (Orthtree D bmin bmax)"
| split: "reachable t \<Longrightarrow> n < number_of_nodes t \<Longrightarrow> split t n = Inr t'
            \<Longrightarrow> number_of_nodes t' \<le> 2 ^ 64 \<Longrightarrow> reachable t'"

section \<open>Concrete trees\<close>

text \<open>The quadtree on the square from (0, 0) to (4, 4), fresh and with the root split.\<close>

definition quadtree0 :: orthtree where
  "quadtree0 = Orthtree 2 [0, 0] [4, 4]"

definition quadtree1 :: orthtree where
  "quadtree1 =
     \<lparr> Dimension = 2,
       m_node_depths = [0, 1, 1, 1, 1],
       m_node_coordinates = [[0, 0], [0, 0], [1, 0], [0, 1], [1, 1]],
       m_node_parents = [None, Some 0, Some 0, Some 0, Some 0],
       m_node_children = [Some 1, None, None, None, None],
       m_bbox_min = [0, 0],
       m_bbox_max = [4, 4],
       m_side_per_depth = [[4, 4], [2, 2]] \<rparr>"

text \<open>A split predicate: split the nodes of depth 0.\<close>

definition split_shallow :: "Node_index \<Rightarrow> orthtree \<Rightarrow> bool" where
  "split_shallow n t = (depth t n < 1)"

text \<open>The quadtree with the root and its child 1 split.\<close>

definition quadtree2 :: orthtree where
  "quadtree2 =
     \<lparr> Dimension = 2,
       m_node_depths = [0, 1, 1, 1, 1, 2, 2, 2, 2],
       m_node_coordinates = [[0, 0], [0, 0], [1, 0], [0, 1], [1, 1],
                             [0, 0], [1, 0], [0, 1], [1, 1]],
       m_node_parents = [None, Some 0, Some 0, Some 0, Some 0,
                         Some 1, Some 1, Some 1, Some 1],
       m_node_children = [Some 1, Some 5, None, None, None, None, None, None, None],
       m_bbox_min = [0, 0],
       m_bbox_max = [4, 4],
       m_side_per_depth = [[4, 4], [2, 2], [1, 1]] \<rparr>"

text \<open>A quadtree in which the children 1 and 3 of the root are split and 2 and 4 are not.\<close>

definition quadtree_uneven :: orthtree where
  "quadtree_uneven =
     \<lparr> Dimension = 2,
       m_node_depths = [0, 1, 1, 1, 1, 2, 2, 2, 2, 2, 2, 2, 2],
       m_node_coordinates = [[0, 0], [0, 0], [1, 0], [0, 1], [1, 1],
                             [0, 0], [1, 0], [0, 1], [1, 1],
                             [0, 2], [1, 2], [0, 3], [1, 3]],
       m_node_parents = [None, Some 0, Some 0, Some 0, Some 0,
                         Some 1, Some 1, Some 1, Some 1, Some 3, Some 3, Some 3, Some 3],
       m_node_children = [Some 1, Some 5, None, Some 9, None,
                          None, None, None, None, None, None, None, None],
       m_bbox_min = [0, 0],
       m_bbox_max = [4, 4],
       m_side_per_depth = [[4, 4], [2, 2], [1, 1]] \<rparr>"

text \<open>A fresh tree of dimension 4.\<close>

definition hypertree0 :: orthtree where
  "hypertree0 = Orthtree 4 [0, 0, 0, 0] [1, 1, 1, 1]"

text \<open>
  A quadtree refined along the upper edge of its lower left quadrant, down to depth 5:
  the predicate splits the nodes 0, 1, 7, 11 and 15. \<open>graded_quadtree\<close> is the tree that
  \<^verbatim>\<open>grade\<close> makes of it.
\<close>

definition split_along_edge :: "Node_index \<Rightarrow> orthtree \<Rightarrow> bool" where
  "split_along_edge n t = (n \<in> {0, 1, 7, 11, 15})"

definition deep_quadtree :: orthtree where
  "deep_quadtree =
     \<lparr> Dimension = 2,
       m_node_depths = [0, 1, 1, 1, 1, 2, 2, 2, 2, 3, 3, 3, 3, 4, 4, 4, 4, 5, 5, 5, 5],
       m_node_coordinates =
         [[0, 0], [0, 0], [1, 0], [0, 1], [1, 1], [0, 0], [1, 0], [0, 1],
          [1, 1], [0, 2], [1, 2], [0, 3], [1, 3], [0, 6], [1, 6], [0, 7],
          [1, 7], [0, 14], [1, 14], [0, 15], [1, 15]],
       m_node_parents =
         [None, Some 0, Some 0, Some 0, Some 0, Some 1, Some 1, Some 1, Some 1,
          Some 7, Some 7, Some 7, Some 7, Some 11, Some 11, Some 11, Some 11,
          Some 15, Some 15, Some 15, Some 15],
       m_node_children =
         [Some 1, Some 5, None, None, None, None, None, Some 9, None, None,
          None, Some 13, None, None, None, Some 17, None, None, None, None, None],
       m_bbox_min = [0, 0],
       m_bbox_max = [4, 4],
       m_side_per_depth =
         [[4, 4], [2, 2], [1, 1], [1 / 2, 1 / 2], [1 / 4, 1 / 4], [1 / 8, 1 / 8]] \<rparr>"

definition graded_quadtree :: orthtree where
  "graded_quadtree =
     \<lparr> Dimension = 2,
       m_node_depths =
         [0, 1, 1, 1, 1, 2, 2, 2, 2, 3, 3, 3, 3, 4, 4, 4, 4, 5, 5, 5, 5,
          2, 2, 2, 2, 3, 3, 3, 3],
       m_node_coordinates =
         [[0, 0], [0, 0], [1, 0], [0, 1], [1, 1], [0, 0], [1, 0], [0, 1],
          [1, 1], [0, 2], [1, 2], [0, 3], [1, 3], [0, 6], [1, 6], [0, 7],
          [1, 7], [0, 14], [1, 14], [0, 15], [1, 15], [0, 2], [1, 2],
          [0, 3], [1, 3], [0, 4], [1, 4], [0, 5], [1, 5]],
       m_node_parents =
         [None, Some 0, Some 0, Some 0, Some 0, Some 1, Some 1, Some 1,
          Some 1, Some 7, Some 7, Some 7, Some 7, Some 11, Some 11,
          Some 11, Some 11, Some 15, Some 15, Some 15, Some 15, Some 3,
          Some 3, Some 3, Some 3, Some 21, Some 21, Some 21, Some 21],
       m_node_children =
         [Some 1, Some 5, None, Some 21, None, None, None, Some 9, None,
          None, None, Some 13, None, None, None, Some 17, None, None,
          None, None, None, Some 25, None, None, None, None, None, None, None],
       m_bbox_min = [0, 0],
       m_bbox_max = [4, 4],
       m_side_per_depth =
         [[4, 4], [2, 2], [1, 1], [1 / 2, 1 / 2], [1 / 4, 1 / 4], [1 / 8, 1 / 8]] \<rparr>"

text \<open>A tree of dimension 8, fresh and with the root split.\<close>

definition tree8_fresh :: orthtree where
  "tree8_fresh = Orthtree 8 (replicate 8 0) (replicate 8 1)"

definition tree8 :: orthtree where
  "tree8 = split_result tree8_fresh 0"

text \<open>
  The binary tree on the segment from 0 to \<open>2 ^ 32\<close> that is split along one path down to
  depth 32: the root, its upper child, and from there the lower child of each node split
  before. \<^verbatim>\<open>split_all\<close> splits the nodes of a list one after the other.
\<close>

definition split_all :: "Node_index list \<Rightarrow> orthtree \<Rightarrow> orthtree" where
  "split_all ns t =
     fold (\<lambda>n t. if n < number_of_nodes t
                  then (case split t n of Inl e \<Rightarrow> t | Inr t' \<Rightarrow> t')
                  else t) ns t"

definition bintree32 :: orthtree where
  "bintree32 =
     split_all [0, 2, 3, 5, 7, 9, 11, 13, 15, 17, 19, 21, 23, 25, 27, 29, 31, 33, 35, 37, 39,
                41, 43, 45, 47, 49, 51, 53, 55, 57, 59, 61]
       (Orthtree 1 [0] [4294967296])"

text \<open>The tree \<^verbatim>\<open>bintree32\<close> with one more split, of the lower leaf of depth 32.\<close>

definition bintree33 :: orthtree where
  "bintree33 = split_all [63] bintree32"

text \<open>
  The binary trees on the segment from 0 to 1 that are split along one path: the root, its
  lower child, and from there \<open>k\<close> times the upper child of the node split before, which is
  the last node of the store. The tree \<^verbatim>\<open>chain k\<close> has \<open>2 * k + 5\<close> nodes, and its deepest
  leaves are \<open>k + 2\<close> levels below the root. \<^verbatim>\<open>chain_parent\<close> and \<^verbatim>\<open>chain_child\<close> are its
  parent and child arrays in closed form.
\<close>

definition chain_nodes :: "nat \<Rightarrow> Node_index list" where
  "chain_nodes k = 0 # 1 # map (\<lambda>j. 2 * j + 4) [0..<k]"

definition chain :: "nat \<Rightarrow> orthtree" where
  "chain k = split_all (chain_nodes k) (Orthtree 1 [0] [1])"

definition chain_parent :: "nat \<Rightarrow> nat option" where
  "chain_parent i =
     (if i = 0 then None else if i \<le> 2 then Some 0 else if i \<le> 4 then Some 1
      else Some (2 * ((i - 1) div 2)))"

definition chain_child :: "nat \<Rightarrow> nat \<Rightarrow> nat option" where
  "chain_child N i =
     (if i = 0 then Some 1 else if i = 1 then Some 3
      else if even i \<and> 4 \<le> i \<and> i + 1 < N then Some (i + 1) else None)"

definition chain_ok :: "nat \<Rightarrow> orthtree \<Rightarrow> bool" where
  "chain_ok k t \<longleftrightarrow>
     Dimension t = 1 \<and>
     m_node_depths t = map (\<lambda>i. of_nat ((i + 1) div 2)) [0..<2 * k + 5] \<and>
     length (m_node_coordinates t) = 2 * k + 5 \<and>
     m_node_parents t = map chain_parent [0..<2 * k + 5] \<and>
     m_node_children t = map (chain_child (2 * k + 5)) [0..<2 * k + 5] \<and>
     length (m_side_per_depth t) = min (k + 3) 257"

section \<open>Closed form of a split\<close>

lemma replicate_num: "replicate (numeral k) x = x # replicate (pred_numeral k) x"
  by (simp add: numeral_eq_Suc)

lemma list_update_num: "(x # xs)[numeral k := y] = x # xs[pred_numeral k := y]"
  by (simp add: numeral_eq_Suc)

lemma upt_2: "[0..<2] = [0, 1]"
  by (simp add: upt_rec)

lemma upt_4: "[0..<4] = [0, 1, 2, 3]"
  by (simp add: upt_rec)

lemma upt_6: "[0..<6] = [0, 1, 2, 3, 4, 5]"
  by (simp add: upt_rec)

lemma child_eq:
  "m_node_children t ! n = Some fc \<Longrightarrow> fc + i < 2 ^ 64 \<Longrightarrow> child t n i = Inr (fc + i)"
  by (simp add: child_def take_bit_nat_eq_self)

lemma children_from_eq:
  "m_node_children t ! n = Some fc \<Longrightarrow> \<forall>i \<in> set js. fc + i < 2 ^ 64
     \<Longrightarrow> children_from t n js = Inr (map (\<lambda>i. fc + i) js)"
  by (induction js) (simp_all add: child_eq)

lemma all_children_eq:
  "m_node_children t ! n = Some fc \<Longrightarrow> fc + Degree t \<le> 2 ^ 64
     \<Longrightarrow> all_children t n = Inr (map (\<lambda>i. fc + i) [0..<Degree t])"
  unfolding all_children_def by (rule children_from_eq) auto

text \<open>
  The loop over the new children writes entry \<open>fc + i\<close> in step \<open>i\<close> and reads only
  entry \<open>n\<close>, which lies below \<open>fc\<close>; after \<open>k\<close> steps the first \<open>k\<close> new entries are set.
\<close>

lemma fold_init_child:
  assumes "lockstep t" "n < number_of_nodes t" "k \<le> K"
  shows "fold (init_child n) [0..<k]
           (t\<lparr> m_node_depths := m_node_depths t @ replicate K 0,
               m_node_coordinates := m_node_coordinates t @ replicate K z,
               m_node_parents := m_node_parents t @ replicate K None,
               m_node_children := (m_node_children t @ replicate K None)[n := Some (number_of_nodes t)] \<rparr>)
         = t\<lparr> m_node_depths := m_node_depths t @ replicate k (m_node_depths t ! n + 1) @ replicate (K - k) 0,
               m_node_coordinates := m_node_coordinates t
                 @ map (child_coordinates (Dimension t) (m_node_coordinates t ! n)) [0..<k] @ replicate (K - k) z,
               m_node_parents := m_node_parents t @ replicate k (Some n) @ replicate (K - k) None,
               m_node_children := (m_node_children t @ replicate K None)[n := Some (number_of_nodes t)] \<rparr>"
  using assms(3)
proof (induction k)
  case 0
  then show ?case by simp
next
  case (Suc k)
  then have k: "k < K" by simp
  have r: "replicate (K - k) x = x # replicate (K - Suc k) x" for x :: 'a
    using k by (metis Suc_diff_Suc replicate_Suc)
  define T0 where "T0 = t\<lparr> m_node_depths := m_node_depths t @ replicate K 0,
               m_node_coordinates := m_node_coordinates t @ replicate K z,
               m_node_parents := m_node_parents t @ replicate K None,
               m_node_children := (m_node_children t @ replicate K None)[n := Some (number_of_nodes t)] \<rparr>"
  define Tk where "Tk = t\<lparr> m_node_depths := m_node_depths t @ replicate k (m_node_depths t ! n + 1) @ replicate (K - k) 0,
               m_node_coordinates := m_node_coordinates t
                 @ map (child_coordinates (Dimension t) (m_node_coordinates t ! n)) [0..<k] @ replicate (K - k) z,
               m_node_parents := m_node_parents t @ replicate k (Some n) @ replicate (K - k) None,
               m_node_children := (m_node_children t @ replicate K None)[n := Some (number_of_nodes t)] \<rparr>"
  have IH: "fold (init_child n) [0..<k] T0 = Tk"
    unfolding T0_def Tk_def using Suc.IH k by simp
  have nth_n: "(m_node_children t @ replicate K None)[n := Some (number_of_nodes t)] ! n = Some (number_of_nodes t)"
    using assms(1,2) by (simp add: lockstep_def nth_list_update)
  have "fold (init_child n) [0..<Suc k] T0 = init_child n k Tk"
    using IH by simp
  also have "\<dots> = t\<lparr> m_node_depths := m_node_depths t @ replicate (Suc k) (m_node_depths t ! n + 1) @ replicate (K - Suc k) 0,
               m_node_coordinates := m_node_coordinates t
                 @ map (child_coordinates (Dimension t) (m_node_coordinates t ! n)) [0..<Suc k] @ replicate (K - Suc k) z,
               m_node_parents := m_node_parents t @ replicate (Suc k) (Some n) @ replicate (K - Suc k) None,
               m_node_children := (m_node_children t @ replicate K None)[n := Some (number_of_nodes t)] \<rparr>"
    using assms(1,2)
    by (simp add: Tk_def init_child_def Let_def nth_n lockstep_def number_of_nodes_def nth_append
        list_update_append r child_coordinates_def replicate_append_same)
  finally show ?case unfolding T0_def .
qed

lemma split_eq:
  assumes "lockstep t" "n < number_of_nodes t" "is_leaf t n"
  shows "split t n = Inr (split_result t n)"
proof -
  have "fold (init_child n) [0..<Degree t]
           (t\<lparr> m_node_depths := m_node_depths t @ replicate (Degree t) 0,
               m_node_coordinates := m_node_coordinates t @ replicate (Degree t) (replicate (Dimension t) 0),
               m_node_parents := m_node_parents t @ replicate (Degree t) None,
               m_node_children := (m_node_children t @ replicate (Degree t) None)[n := Some (number_of_nodes t)] \<rparr>)
     = t\<lparr> m_node_depths := m_node_depths t @ replicate (Degree t) (m_node_depths t ! n + 1),
           m_node_coordinates := m_node_coordinates t
              @ map (child_coordinates (Dimension t) (m_node_coordinates t ! n)) [0..<Degree t],
           m_node_parents := m_node_parents t @ replicate (Degree t) (Some n),
           m_node_children := (m_node_children t @ replicate (Degree t) None)[n := Some (number_of_nodes t)] \<rparr>"
    using fold_init_child [OF assms(1,2), of "Degree t" "Degree t"] by simp
  moreover have "(m_node_children t @ replicate (Degree t) None)[n := Some (number_of_nodes t)]
      = (m_node_children t)[n := Some (number_of_nodes t)] @ replicate (Degree t) None"
    using assms(1,2) by (simp add: lockstep_def list_update_append)
  ultimately show ?thesis
    using assms(3)
    by (simp add: split_def emplace_group_def split_result_def Degree_def)
qed

section \<open>Splitting keeps a tree well-formed\<close>

lemma Degree_pos: "0 < Degree t"
  by (simp add: Degree_def push_bit_eq_mult)

lemma Degree_eq: "1 \<le> Dimension t \<Longrightarrow> Degree t = 2 ^ Dimension t"
  by (cases "Dimension t") (simp_all add: Degree_def push_bit_eq_mult)

lemma well_formed_Orthtree: "1 \<le> D \<Longrightarrow> well_formed (Orthtree D bmin bmax)"
  by (simp add: well_formed_def lockstep_def number_of_nodes_def node_ok_def Orthtree_def depth_def)

text \<open>The fields of a split tree.\<close>

lemma extend_side_per_depth_fields:
  "Dimension (extend_side_per_depth n t) = Dimension t"
  "m_node_depths (extend_side_per_depth n t) = m_node_depths t"
  "m_node_coordinates (extend_side_per_depth n t) = m_node_coordinates t"
  "m_node_parents (extend_side_per_depth n t) = m_node_parents t"
  "m_node_children (extend_side_per_depth n t) = m_node_children t"
  "m_bbox_min (extend_side_per_depth n t) = m_bbox_min t"
  "m_bbox_max (extend_side_per_depth n t) = m_bbox_max t"
  by (simp_all add: extend_side_per_depth_def)

lemma split_result_params:
  "Dimension (split_result t n) = Dimension t"
  "Degree (split_result t n) = Degree t"
  "m_bbox_min (split_result t n) = m_bbox_min t"
  "m_bbox_max (split_result t n) = m_bbox_max t"
  "number_of_nodes (split_result t n) = number_of_nodes t + Degree t"
  by (simp_all add: split_result_def extend_side_per_depth_fields Degree_def number_of_nodes_def)

lemma split_result_fields:
  "m_node_depths (split_result t n)
     = m_node_depths t @ replicate (Degree t) (m_node_depths t ! n + 1)"
  "m_node_coordinates (split_result t n)
     = m_node_coordinates t
         @ map (child_coordinates (Dimension t) (m_node_coordinates t ! n)) [0..<Degree t]"
  "m_node_parents (split_result t n) = m_node_parents t @ replicate (Degree t) (Some n)"
  "m_node_children (split_result t n)
     = (m_node_children t)[n := Some (number_of_nodes t)] @ replicate (Degree t) None"
  by (simp_all add: split_result_def extend_side_per_depth_fields Degree_def number_of_nodes_def)

lemma split_result_side:
  assumes "n < number_of_nodes t"
  shows "m_side_per_depth (split_result t n)
     = (if depth t n + 1 = length (m_side_per_depth t)
        then m_side_per_depth t @ [map (\<lambda>s. s / 2) (last (m_side_per_depth t))]
        else m_side_per_depth t)"
  using assms
  by (simp add: split_result_def extend_side_per_depth_def depth_def nth_append number_of_nodes_def)

lemma split_result_lockstep: "lockstep t \<Longrightarrow> lockstep (split_result t n)"
  by (simp add: lockstep_def split_result_fields split_result_params)


lemma split_result_nth_old:
  assumes "lockstep t" "m < number_of_nodes t"
  shows "m_node_depths (split_result t n) ! m = m_node_depths t ! m"
    and "m_node_coordinates (split_result t n) ! m = m_node_coordinates t ! m"
    and "m_node_parents (split_result t n) ! m = m_node_parents t ! m"
    and "m_node_children (split_result t n) ! m
           = (if m = n then Some (number_of_nodes t) else m_node_children t ! m)"
    and "depth (split_result t n) m = depth t m"
  using assms
  by (simp_all add: split_result_fields lockstep_def nth_append number_of_nodes_def depth_def)

lemma split_result_nth_new:
  assumes "lockstep t" "i < Degree t"
  shows "m_node_depths (split_result t n) ! (number_of_nodes t + i) = m_node_depths t ! n + 1"
    and "m_node_coordinates (split_result t n) ! (number_of_nodes t + i)
           = child_coordinates (Dimension t) (m_node_coordinates t ! n) i"
    and "m_node_parents (split_result t n) ! (number_of_nodes t + i) = Some n"
    and "m_node_children (split_result t n) ! (number_of_nodes t + i) = None"
  using assms
  by (simp_all add: split_result_fields lockstep_def nth_append number_of_nodes_def)

lemma split_result_side_length:
  assumes "n < number_of_nodes t" "depth t n < length (m_side_per_depth t)"
  shows "length (m_side_per_depth t) \<le> length (m_side_per_depth (split_result t n))"
    and "depth t n + 1 < length (m_side_per_depth (split_result t n))"
  using assms by (auto simp add: split_result_side)

lemma length_child_coordinates: "length (child_coordinates D cs i) = D"
  by (simp add: child_coordinates_def)

lemma unat_succ_le: "unat (w + 1) \<le> unat w + 1" for w :: "8 word"
proof -
  have "unat (w + 1) = (unat w + unat (1 :: 8 word)) mod 2 ^ LENGTH(8)"
    by (rule unat_word_ariths)
  also have "\<dots> \<le> unat w + unat (1 :: 8 word)"
    by (rule mod_less_eq_dividend)
  finally show ?thesis by simp
qed

lemma node_ok_split_result_old:
  assumes wf: "well_formed t" and n: "n < number_of_nodes t" and leaf: "is_leaf t n"
    and m: "m < number_of_nodes t"
  shows "node_ok (split_result t n) m"
proof -
  have ls: "lockstep t" and ok: "node_ok t m" and okn: "node_ok t n"
    using wf n m by (simp_all add: well_formed_def)
  note old = split_result_nth_old [OF ls]
  note oldm = split_result_nth_old [OF ls m]
  have dn: "depth t n < length (m_side_per_depth t)"
    using okn by (simp add: node_ok_def)
  note side = split_result_side_length [OF n dn]
  have cn: "m_node_children t ! n = None"
    using leaf by (simp add: is_leaf_def)
  have 1: "length (m_node_coordinates (split_result t n) ! m) = Dimension (split_result t n)"
    using ok by (simp add: old m node_ok_def split_result_params)
  have 2: "depth (split_result t n) m < length (m_side_per_depth (split_result t n))"
    using ok side(1) by (simp add: old m node_ok_def)
  have 3: "m_node_parents (split_result t n) ! m = None \<and> m_node_depths (split_result t n) ! m = 0 \<and>
           m_node_coordinates (split_result t n) ! m = replicate (Dimension (split_result t n)) 0"
    if "m = 0"
    using ok that oldm by (simp add: node_ok_def split_result_params)
  have 4: "case m_node_parents (split_result t n) ! m of
             None \<Rightarrow> False
           | Some p \<Rightarrow>
               p < m \<and>
               (case m_node_children (split_result t n) ! p of
                  None \<Rightarrow> False
                | Some fc \<Rightarrow>
                    fc \<le> m \<and> m < fc + Degree (split_result t n) \<and>
                    m_node_coordinates (split_result t n) ! m
                      = child_coordinates (Dimension (split_result t n))
                          (m_node_coordinates (split_result t n) ! p) (m - fc) \<and>
                    m_node_depths (split_result t n) ! m
                      = m_node_depths (split_result t n) ! p + 1)"
    if "m \<noteq> 0"
  proof -
    from ok that obtain p fc where p: "m_node_parents t ! m = Some p" "p < m"
      "m_node_children t ! p = Some fc" "fc \<le> m" "m < fc + Degree t"
      "m_node_coordinates t ! m = child_coordinates (Dimension t) (m_node_coordinates t ! p) (m - fc)"
      "m_node_depths t ! m = m_node_depths t ! p + 1"
      by (auto simp add: node_ok_def split: option.splits)
    have pn: "p \<noteq> n" using p(3) cn by auto
    have pN: "p < number_of_nodes t" using p(2) m by simp
    show ?thesis
      using p pn by (simp add: old m pN split_result_params)
  qed
  have 5: "case m_node_children (split_result t n) ! m of
        None \<Rightarrow> True
      | Some fc \<Rightarrow>
          m < fc \<and> fc + Degree (split_result t n) \<le> number_of_nodes (split_result t n) \<and>
          depth (split_result t n) m + 1 < length (m_side_per_depth (split_result t n)) \<and>
          (\<forall>i<Degree (split_result t n). m_node_parents (split_result t n) ! (fc + i) = Some m)"
  proof (cases "m = n")
    case True
    then show ?thesis
      using n side(2) ls by (simp add: old split_result_params split_result_nth_new)
  next
    case False
    show ?thesis
    proof (cases "m_node_children t ! m")
      case None
      then show ?thesis using False by (simp add: old m)
    next
      case (Some fc)
      with ok have fc: "m < fc" "fc + Degree t \<le> number_of_nodes t"
        "depth t m + 1 < length (m_side_per_depth t)"
        "\<forall>i<Degree t. m_node_parents t ! (fc + i) = Some m"
        by (simp_all add: node_ok_def)
      have "m_node_parents (split_result t n) ! (fc + i) = Some m" if "i < Degree t" for i
      proof -
        have "fc + i < number_of_nodes t" using that fc(2) by simp
        then show ?thesis using fc(4) that by (simp add: old)
      qed
      then show ?thesis
        using False Some fc side(1) by (simp add: old m split_result_params)
    qed
  qed
  show ?thesis
    unfolding node_ok_def using 1 2 3 4 5 by simp
qed

lemma node_ok_split_result_new:
  assumes wf: "well_formed t" and n: "n < number_of_nodes t" and leaf: "is_leaf t n"
    and i: "i < Degree t"
  shows "node_ok (split_result t n) (number_of_nodes t + i)"
proof -
  have ls: "lockstep t" and okn: "node_ok t n" and pos: "0 < number_of_nodes t"
    using wf n by (simp_all add: well_formed_def)
  note old = split_result_nth_old [OF ls]
  note new = split_result_nth_new [OF ls i]
  have dn: "depth t n < length (m_side_per_depth t)"
    using okn by (simp add: node_ok_def)
  note side = split_result_side_length [OF n dn]
  have "depth (split_result t n) (number_of_nodes t + i) \<le> depth t n + 1"
    using unat_succ_le [of "m_node_depths t ! n"] by (simp add: depth_def new)
  then have 2: "depth (split_result t n) (number_of_nodes t + i)
                  < length (m_side_per_depth (split_result t n))"
    using side(2) by simp
  show ?thesis
    unfolding node_ok_def
    using pos n i 2
    by (simp add: new old split_result_params length_child_coordinates)
qed

lemma well_formed_split_result:
  assumes "well_formed t" "n < number_of_nodes t" "is_leaf t n"
  shows "well_formed (split_result t n)"
proof -
  have "node_ok (split_result t n) m" if "m < number_of_nodes t + Degree t" for m
  proof (cases "m < number_of_nodes t")
    case True
    then show ?thesis by (rule node_ok_split_result_old [OF assms])
  next
    case False
    define i where "i = m - number_of_nodes t"
    with False that have "m = number_of_nodes t + i" "i < Degree t"
      by simp_all
    then show ?thesis using node_ok_split_result_new [OF assms] by simp
  qed
  then show ?thesis
    using assms(1)
    by (simp add: well_formed_def split_result_params split_result_lockstep)
qed

section \<open>Local coordinates and mirrored positions\<close>

lemma int_flip_bit:
  "int (flip_bit a j) = (if bit j a then int j - 2 ^ a else int j + 2 ^ a)"
proof -
  have "int (flip_bit a j) = flip_bit a (int j)"
    by (rule of_nat_flip_bit_eq)
  also have "\<dots> = (if bit (int j) a then unset_bit a (int j) else set_bit a (int j))"
    by (simp add: flip_bit_eq_if)
  also have "\<dots> = (if bit j a then int j - 2 ^ a else int j + 2 ^ a)"
    by (simp add: set_bit_eq unset_bit_eq bit_of_nat_iff_bit)
  finally show ?thesis .
qed

lemma flip_bit_less:
  assumes "j < 2 ^ D" "a < D"
  shows "flip_bit a j < (2 :: nat) ^ D"
proof -
  have "take_bit D (flip_bit a j) = flip_bit a (take_bit D j)"
    using assms(2) by (simp add: take_bit_flip_bit_eq)
  also have "\<dots> = flip_bit a j"
    using assms(1) by (simp add: take_bit_nat_eq_self)
  finally show ?thesis
    by (simp add: take_bit_nat_eq_self_iff)
qed

lemma flip_bit_flip_bit: "flip_bit a (flip_bit a j) = j" for j :: nat
  by (rule bit_eqI) (auto simp add: bit_flip_bit_iff)

lemma bit_flip_bit_same: "bit (flip_bit a j) a \<longleftrightarrow> \<not> bit j a" for j :: nat
  by (simp add: bit_flip_bit_iff)

lemma adjacency_offset_small:
  assumes "a \<le> 6"
  shows "adjacency_offset a sign = (if sign then 2 ^ a else - (2 ^ a))"
proof -
  from assms have "a = 0 \<or> a = 1 \<or> a = 2 \<or> a = 3 \<or> a = 4 \<or> a = 5 \<or> a = 6"
    by arith
  then show ?thesis
    by (elim disjE) (simp_all add: adjacency_offset_def)
qed

lemma size_t_index:
  assumes a: "a \<le> 6" and small: "flip_bit a j < 2 ^ 64" and "bit j a \<noteq> sign"
  shows "nat (take_bit 64 (int j + adjacency_offset a sign)) = flip_bit a j"
    and "nat (take_bit 64 (int j - adjacency_offset a (\<not> sign))) = flip_bit a j"
proof -
  have eq: "int j + adjacency_offset a sign = int (flip_bit a j)"
    "int j - adjacency_offset a (\<not> sign) = int (flip_bit a j)"
    using assms(3) by (auto simp add: adjacency_offset_small [OF a] int_flip_bit)
  have "nat (take_bit 64 (int (flip_bit a j))) = flip_bit a j"
    using small by (simp add: nat_take_bit_eq take_bit_nat_eq_self)
  then show "nat (take_bit 64 (int j + adjacency_offset a sign)) = flip_bit a j"
    and "nat (take_bit 64 (int j - adjacency_offset a (\<not> sign))) = flip_bit a j"
    by (simp_all only: eq)
qed

lemma odd_word_double_plus: "(2 * x + of_bool b) AND 1 \<noteq> 0 \<longleftrightarrow> b" for x :: "32 word"
  by (cases b) (simp_all add: and_one_eq mod_2_eq_odd)

lemma local_coordinates_child_coordinates:
  assumes "j < 2 ^ D"
  shows "horner_sum of_bool 2 (map (\<lambda>i. child_coordinates D cs j ! i AND 1 \<noteq> 0) [0..<D]) = j"
proof -
  have "map (\<lambda>i. child_coordinates D cs j ! i AND 1 \<noteq> 0) [0..<D] = map (bit (take_bit D j)) [0..<D]"
    by (rule map_cong) (simp_all add: child_coordinates_def bitset_def odd_word_double_plus)
  then have "horner_sum of_bool 2 (map (\<lambda>i. child_coordinates D cs j ! i AND 1 \<noteq> 0) [0..<D])
      = take_bit D (take_bit D j)"
    by (simp only: horner_sum_bit_eq_take_bit)
  then show ?thesis
    using assms by (simp add: take_bit_nat_eq_self)
qed

text \<open>What well-formedness says about a node that is not the root.\<close>

lemma well_formed_non_root:
  assumes "well_formed t" "n < number_of_nodes t" "n \<noteq> 0"
  obtains p fc where
    "parent t n = Inr p" "m_node_parents t ! n = Some p" "p < n"
    "m_node_children t ! p = Some fc" "\<not> is_leaf t p"
    "fc \<le> n" "n < fc + Degree t" "local_coordinates t n = n - fc"
    "m_node_coordinates t ! n = child_coordinates (Dimension t) (m_node_coordinates t ! p) (n - fc)"
    "m_node_depths t ! n = m_node_depths t ! p + 1"
proof -
  have ok: "node_ok t n" and D: "1 \<le> Dimension t"
    using assms(1,2) by (simp_all add: well_formed_def)
  with assms(3) obtain p fc where p: "m_node_parents t ! n = Some p" "p < n"
      "m_node_children t ! p = Some fc" "fc \<le> n" "n < fc + Degree t"
      "m_node_coordinates t ! n = child_coordinates (Dimension t) (m_node_coordinates t ! p) (n - fc)"
      "m_node_depths t ! n = m_node_depths t ! p + 1"
    by (auto simp add: node_ok_def split: option.splits)
  have "n - fc < 2 ^ Dimension t"
    using p(4,5) Degree_eq [OF D] by simp
  then have "local_coordinates t n = n - fc"
    by (simp add: local_coordinates_def global_coordinates_def p(6)
        local_coordinates_child_coordinates)
  moreover have "parent t n = Inr p"
    using assms(3) p(1) by (simp add: parent_def is_root_def)
  moreover have "\<not> is_leaf t p"
    using p(3) by (simp add: is_leaf_def)
  ultimately show thesis
    using p that by blast
qed

text \<open>What well-formedness says about the children of an inner node.\<close>

lemma well_formed_child:
  assumes "well_formed t" "n < number_of_nodes t" "\<not> is_leaf t n" "i < Degree t"
    "number_of_nodes t \<le> 2 ^ 64"
  obtains fc where
    "m_node_children t ! n = Some fc" "child t n i = Inr (fc + i)" "n < fc"
    "fc + i < number_of_nodes t" "m_node_parents t ! (fc + i) = Some n"
    "depth t n + 1 < length (m_side_per_depth t)"
proof -
  have ok: "node_ok t n"
    using assms(1,2) by (simp add: well_formed_def)
  from assms(3) obtain fc where fc: "m_node_children t ! n = Some fc"
    by (auto simp add: is_leaf_def)
  with ok have *: "n < fc" "fc + Degree t \<le> number_of_nodes t"
    "depth t n + 1 < length (m_side_per_depth t)"
    "\<forall>i<Degree t. m_node_parents t ! (fc + i) = Some n"
    by (simp_all add: node_ok_def)
  have "fc + i < 2 ^ 64"
    using *(2) assms(4,5) by simp
  then have "child t n i = Inr (fc + i)"
    using fc by (simp add: child_eq)
  then show thesis
    using fc * assms(4) that by simp
qed

section \<open>One step of the adjacency search\<close>

lemma direction_axis_less:
  "direction < D * 2 \<Longrightarrow> direction_axis direction < D"
  by (simp add: direction_axis_def drop_bit_eq_div)

lemma adjacent_node_non_root:
  assumes wf: "well_formed t" and size: "number_of_nodes t \<le> 2 ^ 64"
    and D: "direction_axis direction \<le> 6" and d: "direction < Dimension t * 2"
    and n: "n < number_of_nodes t" "n \<noteq> 0"
    and p: "parent t n = Inr p" "m_node_children t ! p = Some fc"
  shows "adjacent_node t n direction =
     (if bit (n - fc) (direction_axis direction) \<noteq> direction_sign direction
      then Some (Inr (Some (fc + flip_bit (direction_axis direction) (n - fc))))
      else Option.bind (adjacent_node t p direction)
             (\<lambda>r. case r of
                     Inl e \<Rightarrow> Some (Inl e)
                   | Inr None \<Rightarrow> Some (Inr None)
                   | Inr (Some a) \<Rightarrow>
                       if is_leaf t a then Some (Inr (Some a))
                       else Some (some_child t a (flip_bit (direction_axis direction) (n - fc)))))"
proof -
  obtain p' fc' where nr: "parent t n = Inr p'" "p' < n" "m_node_children t ! p' = Some fc'"
    "fc' \<le> n" "n < fc' + Degree t" "local_coordinates t n = n - fc'"
    using well_formed_non_root [OF wf n] by metis
  have [simp]: "p' = p" "fc' = fc"
    using nr p by simp_all
  have D1: "1 \<le> Dimension t"
    using wf by (simp add: well_formed_def)
  have pN: "p < number_of_nodes t"
    using nr(2) n(1) by simp
  have j: "n - fc < 2 ^ Dimension t"
    using nr(4,5) Degree_eq [OF D1] by simp
  have a: "direction_axis direction < Dimension t"
    using d by (rule direction_axis_less)
  have axis: "drop_bit (Suc 0) direction mod 256 = direction_axis direction"
    using D by (simp add: direction_axis_def)
  have okp: "node_ok t p"
    using wf pN by (simp add: well_formed_def)
  have "fc + Degree t \<le> number_of_nodes t"
    using okp p(2) by (simp add: node_ok_def)
  moreover have "flip_bit (direction_axis direction) (n - fc) < Degree t"
    using flip_bit_less [OF j a] Degree_eq [OF D1] by simp
  ultimately have small: "fc + flip_bit (direction_axis direction) (n - fc) < 2 ^ 64"
    using size by simp
  then have fl64: "flip_bit (direction_axis direction) (n - fc) < 2 ^ 64"
    by simp
  from small have ch: "some_child t p (flip_bit (direction_axis direction) (n - fc))
      = Inr (Some (fc + flip_bit (direction_axis direction) (n - fc)))"
    using p(2) by (simp add: some_child_def child_eq)
  have idx1: "nat (take_bit 64 (int (n - fc)
                 + adjacency_offset (direction_axis direction) (direction_sign direction)))
               = flip_bit (direction_axis direction) (n - fc)"
    if "bit (n - fc) (direction_axis direction) \<noteq> direction_sign direction"
    using size_t_index(1) [OF D fl64 that] .
  have idx2: "nat (take_bit 64 (int (n - fc)
                 - adjacency_offset (direction_axis direction) (direction_sign direction)))
               = flip_bit (direction_axis direction) (n - fc)"
    if "bit (n - fc) (direction_axis direction) = direction_sign direction"
    using size_t_index(2) [OF D fl64, of "\<not> direction_sign direction"] that by simp
  show ?thesis
  proof (cases "bit (n - fc) (direction_axis direction) \<noteq> direction_sign direction")
    case True
    show ?thesis
      apply (subst adjacent_node.simps)
      using d n(2) nr(6) p(1) True
      apply (simp add: is_root_def Let_def axis ch idx1 [OF True] flip: direction_sign_def)
      done
  next
    case False
    then have eq: "nat (take_bit 64 (int (n - fc)
                 - adjacency_offset (direction_axis direction) (direction_sign direction)))
               = flip_bit (direction_axis direction) (n - fc)"
      using idx2 by simp
    show ?thesis
      apply (subst adjacent_node.simps)
      using d n(2) nr(6) p(1) False
      apply (simp add: is_root_def Let_def axis eq flip: direction_sign_def
          cong: sum.case_cong option.case_cong if_cong)
      done
  qed
qed

section \<open>Depths and coordinates without wrap-around\<close>

lemma adjacent_node_root:
  "direction < Dimension t * 2 \<Longrightarrow> adjacent_node t 0 direction = Some (Inr None)"
  by (subst adjacent_node.simps) (simp add: is_root_def)

lemma depth_non_root:
  assumes wf: "well_formed t" and td: "tree_depth t \<le> 255"
    and n: "n < number_of_nodes t" "n \<noteq> 0" and p: "parent t n = Inr p"
  shows "depth t n = depth t p + 1"
proof -
  obtain p' fc where nr: "parent t n = Inr p'" "p' < n" "m_node_children t ! p' = Some fc"
    "m_node_depths t ! n = m_node_depths t ! p' + 1"
    using well_formed_non_root [OF wf n] by metis
  have [simp]: "p' = p" using nr(1) p by simp
  have "node_ok t p"
    using wf nr(2) n(1) by (simp add: well_formed_def)
  then have "depth t p + 1 < length (m_side_per_depth t)"
    using nr(3) by (simp add: node_ok_def)
  then have "unat (m_node_depths t ! p) + unat (1 :: 8 word) < 2 ^ LENGTH(8)"
    using td by (simp add: tree_depth_def depth_def)
  then have "unat (m_node_depths t ! p + 1) = unat (m_node_depths t ! p) + unat (1 :: 8 word)"
    by (simp only: unat_add_lem)
  then show ?thesis
    using nr(4) by (simp add: depth_def)
qed

lemma sint_small: "sint w = int (unat w)" if "unat w < 2 ^ 31" for w :: "32 word"
proof -
  have "int (unat w) < int (2 ^ 31)"
    using that by (simp only: of_nat_less_iff)
  then have "uint w < 2 ^ 31"
    by (simp only: of_nat_power of_nat_numeral flip: uint_nat)
  moreover have "0 \<le> uint w" by simp
  ultimately have "signed_take_bit 31 (uint w) = uint w"
    by (intro signed_take_bit_int_eq_self) linarith+
  then show ?thesis
    by (simp add: sint_uint flip: uint_nat)
qed

lemma sint_succ: "sint (c + 1) = int (unat c) + 1 \<and> sint c = int (unat c)"
    if "unat c < 2 ^ 31 - 1" for c :: "32 word"
proof -
  have "unat c + unat (1 :: 32 word) < 2 ^ LENGTH(32)" using that by simp
  then have "unat (c + 1) = unat c + unat (1 :: 32 word)"
    by (simp only: unat_add_lem)
  then have "unat (c + 1) = unat c + 1" by simp
  moreover have "unat (c + 1) < 2 ^ 31" using that calculation by linarith
  moreover have "unat c < 2 ^ 31" using that by linarith
  ultimately show ?thesis
    by (simp only: sint_small) simp
qed
lemma unat_double_plus:
  fixes x :: "32 word"
  assumes "2 * unat x + 1 < 2 ^ 32"
  shows "unat (2 * x + of_bool b) = 2 * unat x + of_bool b"
proof -
  have "unat (2 * x + of_bool b) = (unat (2 * x) + unat (of_bool b :: 32 word)) mod 2 ^ LENGTH(32)"
    by (rule unat_word_ariths)
  moreover have "unat (2 * x) = (unat (2 :: 32 word) * unat x) mod 2 ^ LENGTH(32)"
    by (rule unat_word_ariths)
  moreover have "unat (of_bool b :: 32 word) = of_bool b"
    by (cases b) simp_all
  moreover have "2 * unat x + of_bool b < (2 :: nat) ^ 32"
    using assms by (cases b) simp_all
  moreover have "2 * unat x < (2 :: nat) ^ 32"
    using assms by simp
  ultimately show ?thesis by simp
qed

lemma coordinates_non_root:
  assumes wf: "well_formed t" and td: "tree_depth t \<le> 32"
    and n: "n < number_of_nodes t" and i: "i < Dimension t"
  shows "unat (global_coordinates t n ! i) < 2 ^ depth t n \<and>
         (\<forall>p fc. n \<noteq> 0 \<longrightarrow> parent t n = Inr p \<longrightarrow> m_node_children t ! p = Some fc \<longrightarrow>
            unat (global_coordinates t n ! i)
              = 2 * unat (global_coordinates t p ! i) + of_bool (bit (n - fc) i))"
  using n
proof (induction n rule: less_induct)
  case (less n)
  show ?case
  proof (cases "n = 0")
    case True
    have "node_ok t 0"
      using wf less.prems True by (simp add: well_formed_def)
    then show ?thesis
      using True i by (simp add: node_ok_def global_coordinates_def)
  next
    case False
    obtain p fc where nr: "parent t n = Inr p" "p < n" "m_node_children t ! p = Some fc"
      "fc \<le> n" "n < fc + Degree t"
      "m_node_coordinates t ! n = child_coordinates (Dimension t) (m_node_coordinates t ! p) (n - fc)"
      using well_formed_non_root [OF wf less.prems False] by metis
    have D1: "1 \<le> Dimension t"
      using wf by (simp add: well_formed_def)
    have j: "n - fc < 2 ^ Dimension t"
      using nr(4,5) Degree_eq [OF D1] by simp
    have pN: "p < number_of_nodes t"
      using nr(2) less.prems by simp
    have dn: "depth t n = depth t p + 1"
      using depth_non_root [OF wf _ less.prems False nr(1)] td by simp
    have "node_ok t n"
      using wf less.prems by (simp add: well_formed_def)
    then have "depth t n < length (m_side_per_depth t)"
      by (simp add: node_ok_def)
    then have dp: "depth t p \<le> 31"
      using td dn by (simp add: tree_depth_def)
    have cp: "unat (global_coordinates t p ! i) < 2 ^ depth t p"
      using less.IH [OF nr(2) pN] by simp
    have "(2 :: nat) ^ depth t p \<le> 2 ^ 31"
      using dp by (intro power_increasing) simp_all
    then have "2 * unat (global_coordinates t p ! i) + 1 < 2 ^ 32"
      using cp by simp
    then have "unat (2 * (global_coordinates t p ! i) + of_bool (bit (n - fc) i))
        = 2 * unat (global_coordinates t p ! i) + of_bool (bit (n - fc) i)"
      by (rule unat_double_plus)
    moreover have "global_coordinates t n ! i
        = 2 * (global_coordinates t p ! i) + of_bool (bit (n - fc) i)"
      using i j by (simp add: global_coordinates_def nr(6) child_coordinates_def bitset_def
          bit_take_bit_iff)
    ultimately have eq: "unat (global_coordinates t n ! i)
        = 2 * unat (global_coordinates t p ! i) + of_bool (bit (n - fc) i)"
      by simp
    have "2 * unat (global_coordinates t p ! i) + of_bool (bit (n - fc) i) < 2 * 2 ^ depth t p"
      using cp by (cases "bit (n - fc) i") simp_all
    then have "unat (global_coordinates t n ! i) < 2 ^ depth t n"
      using eq dn by simp
    then show ?thesis
      using eq nr(1,3) by auto
  qed
qed

section \<open>The adjacent node\<close>

lemma on_boundary_root:
  assumes "well_formed t" "direction < Dimension t * 2"
  shows "on_boundary t 0 direction"
proof -
  have "node_ok t 0"
    using assms(1) by (simp add: well_formed_def)
  moreover have "direction_axis direction < Dimension t"
    using assms(2) by (rule direction_axis_less)
  ultimately show ?thesis
    by (simp add: on_boundary_def node_ok_def global_coordinates_def depth_def)
qed

lemma on_boundary_non_root:
  assumes wf: "well_formed t" and td: "tree_depth t \<le> 32"
    and d: "direction < Dimension t * 2"
    and n: "n < number_of_nodes t" "n \<noteq> 0"
    and p: "parent t n = Inr p" "m_node_children t ! p = Some fc"
  shows "on_boundary t n direction \<longleftrightarrow>
         bit (n - fc) (direction_axis direction) = direction_sign direction \<and>
         on_boundary t p direction"
proof -
  have a: "direction_axis direction < Dimension t"
    using d by (rule direction_axis_less)
  have dn: "depth t n = depth t p + 1"
    using depth_non_root [OF wf _ n p(1)] td by simp
  have c: "unat (global_coordinates t n ! direction_axis direction)
      = 2 * unat (global_coordinates t p ! direction_axis direction)
          + of_bool (bit (n - fc) (direction_axis direction))"
    using coordinates_non_root [OF wf td n(1) a] n(2) p by simp
  have pos: "0 < (2 :: nat) ^ depth t p" by simp
  show ?thesis
  proof (cases "direction_sign direction")
    case True
    have "2 * x + of_bool b = 2 * X - 1 \<longleftrightarrow> b \<and> x = X - 1" if "0 < X" for x X :: nat and b
      using that by (cases b) (simp_all, arith+)
    from this [OF pos] show ?thesis
      using True by (simp add: on_boundary_def c dn)
  next
    case False
    then show ?thesis
      by (auto simp add: on_boundary_def c dn)
  qed
qed

lemma child_node:
  assumes wf: "well_formed t" and size: "number_of_nodes t \<le> 2 ^ 64"
    and td: "tree_depth t \<le> 255"
    and q: "q < number_of_nodes t" "\<not> is_leaf t q" and i: "i < Degree t"
  obtains fq where
    "m_node_children t ! q = Some fq" "some_child t q i = Inr (Some (fq + i))"
    "fq + i < number_of_nodes t" "fq + i \<noteq> 0" "parent t (fq + i) = Inr q"
    "depth t (fq + i) = depth t q + 1"
proof -
  obtain fq where fq: "m_node_children t ! q = Some fq" "child t q i = Inr (fq + i)" "q < fq"
      "fq + i < number_of_nodes t" "m_node_parents t ! (fq + i) = Some q"
    using well_formed_child [OF wf q i size] by metis
  have b0: "fq + i \<noteq> 0" using fq(3) by simp
  then have pa: "parent t (fq + i) = Inr q"
    using fq(5) by (simp add: parent_def is_root_def)
  then have "depth t (fq + i) = depth t q + 1"
    using depth_non_root [OF wf td fq(4) b0] by simp
  then show thesis
    using fq b0 pa that by (simp add: some_child_def)
qed

lemma adjacent_node_spec:
  assumes wf: "well_formed t" and size: "number_of_nodes t \<le> 2 ^ 64"
    and D: "direction_axis direction \<le> 6" and td': "tree_depth t \<le> 255"
    and d: "direction < Dimension t * 2"
    and n: "n < number_of_nodes t"
  shows "\<exists>r. adjacent_node t n direction = Some (Inr r) \<and>
             (tree_depth t \<le> 32 \<longrightarrow> (r = None \<longleftrightarrow> on_boundary t n direction)) \<and>
             (\<forall>b. r = Some b \<longrightarrow> b < number_of_nodes t \<and> b \<noteq> 0 \<and> depth t b \<le> depth t n)"
  using n
proof (induction n rule: less_induct)
  case (less n)
  have D1: "1 \<le> Dimension t"
    using wf by (simp add: well_formed_def)
  show ?case
  proof (cases "n = 0")
    case True
    then show ?thesis
      using adjacent_node_root [OF d] on_boundary_root [OF wf d] by simp
  next
    case False
    obtain p fc where nr: "parent t n = Inr p" "p < n" "m_node_children t ! p = Some fc"
      "\<not> is_leaf t p" "fc \<le> n" "n < fc + Degree t"
      using well_formed_non_root [OF wf less.prems False] by metis
    have pN: "p < number_of_nodes t"
      using nr(2) less.prems by simp
    have j: "n - fc < 2 ^ Dimension t"
      using nr(5,6) Degree_eq [OF D1] by simp
    have a: "direction_axis direction < Dimension t"
      using d by (rule direction_axis_less)
    have fl: "flip_bit (direction_axis direction) (n - fc) < Degree t"
      using flip_bit_less [OF j a] Degree_eq [OF D1] by simp
    have dn: "depth t n = depth t p + 1"
      using depth_non_root [OF wf td' less.prems False nr(1)] .
    note step = adjacent_node_non_root [OF wf size D d less.prems False nr(1,3)]
    note bnd = on_boundary_non_root [OF wf _ d less.prems False nr(1,3)]
    note mirror = child_node [OF wf size td' _ _ fl]
    show ?thesis
    proof (cases "bit (n - fc) (direction_axis direction) \<noteq> direction_sign direction")
      case True
      obtain fq where b: "m_node_children t ! p = Some fq"
          "fq + flip_bit (direction_axis direction) (n - fc) < number_of_nodes t"
          "fq + flip_bit (direction_axis direction) (n - fc) \<noteq> 0"
          "depth t (fq + flip_bit (direction_axis direction) (n - fc)) = depth t p + 1"
        using mirror [OF pN nr(4)] by metis
      have "fq = fc"
        using b(1) nr(3) by simp
      then show ?thesis
        using True step bnd b(2,3,4) dn by simp
    next
      case False
      then have same: "bit (n - fc) (direction_axis direction) = direction_sign direction"
        by simp
      from less.IH [OF nr(2) pN] obtain r where
        r: "adjacent_node t p direction = Some (Inr r)"
          "tree_depth t \<le> 32 \<longrightarrow> (r = None \<longleftrightarrow> on_boundary t p direction)"
          "\<forall>b. r = Some b \<longrightarrow> b < number_of_nodes t \<and> b \<noteq> 0 \<and> depth t b \<le> depth t p"
        by blast
      show ?thesis
      proof (cases r)
        case None
        then show ?thesis
          using same step bnd r by simp
      next
        case (Some q)
        then have q: "q < number_of_nodes t" "q \<noteq> 0" "depth t q \<le> depth t p"
          using r(3) by simp_all
        show ?thesis
        proof (cases "is_leaf t q")
          case True
          then show ?thesis
            using same step bnd r(1,2) Some q dn by simp
        next
          case False
          obtain fq where
            b: "some_child t q (flip_bit (direction_axis direction) (n - fc))
                  = Inr (Some (fq + flip_bit (direction_axis direction) (n - fc)))"
              "fq + flip_bit (direction_axis direction) (n - fc) < number_of_nodes t"
              "fq + flip_bit (direction_axis direction) (n - fc) \<noteq> 0"
              "depth t (fq + flip_bit (direction_axis direction) (n - fc)) = depth t q + 1"
            using mirror [OF q(1) False] by metis
          then show ?thesis
            using same step bnd r(1,2) Some q dn False by simp
        qed
      qed
    qed
  qed
qed


lemma opposite_direction:
  assumes "direction < D * 2"
  shows "opposite direction < D * 2"
    and "direction_axis (opposite direction) = direction_axis direction"
    and "direction_sign (opposite direction) \<longleftrightarrow> \<not> direction_sign direction"
proof -
  have "int (opposite direction) = (if odd direction then int direction - 1 else int direction + 1)"
    using int_flip_bit [of 0 direction] by (simp add: opposite_def bit_0)
  then have eq: "opposite direction = (if odd direction then direction - 1 else direction + 1)"
    by (auto elim: oddE)
  show "opposite direction < D * 2"
    using assms unfolding eq by (auto elim!: oddE evenE)
  show "direction_axis (opposite direction) = direction_axis direction"
    unfolding eq by (auto simp add: direction_axis_def drop_bit_eq_div elim!: oddE evenE)
  show "direction_sign (opposite direction) \<longleftrightarrow> \<not> direction_sign direction"
    by (simp add: direction_sign_def opposite_def bit_flip_bit_iff)
qed

lemma adjacent_node_symmetric:
  assumes wf: "well_formed t" and size: "number_of_nodes t \<le> 2 ^ 64"
    and D: "direction_axis direction \<le> 6" and td': "tree_depth t \<le> 255"
    and d: "direction < Dimension t * 2"
    and n: "n < number_of_nodes t"
    and adj: "adjacent_node t n direction = Some (Inr (Some b))"
    and same_depth: "depth t b = depth t n"
  shows "adjacent_node t b (opposite direction) = Some (Inr (Some n))"
  using n adj same_depth
proof (induction n arbitrary: b rule: less_induct)
  case (less n)
  have D1: "1 \<le> Dimension t"
    using wf by (simp add: well_formed_def)
  note opp = opposite_direction [OF d]
  have D': "direction_axis (opposite direction) \<le> 6"
    using D by (simp add: opp)
  have n0: "n \<noteq> 0"
  proof
    assume "n = 0"
    then show False
      using less.prems(2) adjacent_node_root [OF d] by simp
  qed
  obtain p fc where nr: "parent t n = Inr p" "p < n" "m_node_children t ! p = Some fc"
    "\<not> is_leaf t p" "fc \<le> n" "n < fc + Degree t"
    using well_formed_non_root [OF wf less.prems(1) n0] by metis
  have pN: "p < number_of_nodes t"
    using nr(2) less.prems(1) by simp
  have j: "n - fc < 2 ^ Dimension t"
    using nr(5,6) Degree_eq [OF D1] by simp
  have a: "direction_axis direction < Dimension t"
    using d by (rule direction_axis_less)
  have fl: "flip_bit (direction_axis direction) (n - fc) < Degree t"
    using flip_bit_less [OF j a] Degree_eq [OF D1] by simp
  have dn: "depth t n = depth t p + 1"
    using depth_non_root [OF wf td' less.prems(1) n0 nr(1)] .
  note step = adjacent_node_non_root [OF wf size D d less.prems(1) n0 nr(1,3)]
  note mirror = child_node [OF wf size td' _ _ fl]
  have home: "some_child t p (n - fc) = Inr (Some n)"
  proof -
    have "fc + (n - fc) < 2 ^ 64"
      using nr(5) less.prems(1) size by simp
    then show ?thesis
      using nr(3,5) by (simp add: some_child_def child_eq)
  qed
  show ?case
  proof (cases "bit (n - fc) (direction_axis direction) \<noteq> direction_sign direction")
    case True
    obtain fq where q: "m_node_children t ! p = Some fq"
        "fq + flip_bit (direction_axis direction) (n - fc) < number_of_nodes t"
        "fq + flip_bit (direction_axis direction) (n - fc) \<noteq> 0"
        "parent t (fq + flip_bit (direction_axis direction) (n - fc)) = Inr p"
      using mirror [OF pN nr(4)] by metis
    have fq: "fq = fc" using q(1) nr(3) by simp
    have b: "b = fc + flip_bit (direction_axis direction) (n - fc)"
      using True step less.prems(2) by simp
    have "adjacent_node t b (opposite direction)
        = Some (Inr (Some (fc + flip_bit (direction_axis direction)
                                  (flip_bit (direction_axis direction) (n - fc)))))"
      using adjacent_node_non_root [OF wf size D' opp(1) _ _ _ nr(3), of b] q True
      by (simp add: b fq opp bit_flip_bit_same)
    then show ?thesis
      using nr(5) by (simp add: flip_bit_flip_bit)
  next
    case False
    then have same: "bit (n - fc) (direction_axis direction) = direction_sign direction"
      by simp
    obtain r where r: "adjacent_node t p direction = Some (Inr r)"
        "\<forall>b. r = Some b \<longrightarrow> b < number_of_nodes t \<and> b \<noteq> 0 \<and> depth t b \<le> depth t p"
      using adjacent_node_spec [OF wf size D td' d pN] by blast
    from step same r(1) less.prems(2) obtain q where rq: "r = Some q"
      by (cases r) simp_all
    then have q: "q < number_of_nodes t" "q \<noteq> 0" "depth t q \<le> depth t p"
      using r(2) by simp_all
    have nl: "\<not> is_leaf t q"
    proof
      assume "is_leaf t q"
      then have "b = q"
        using step same r(1) rq less.prems(2) by simp
      then show False
        using q(3) dn less.prems(3) by simp
    qed
    obtain fq where bq: "m_node_children t ! q = Some fq"
        "some_child t q (flip_bit (direction_axis direction) (n - fc))
           = Inr (Some (fq + flip_bit (direction_axis direction) (n - fc)))"
        "fq + flip_bit (direction_axis direction) (n - fc) < number_of_nodes t"
        "fq + flip_bit (direction_axis direction) (n - fc) \<noteq> 0"
        "parent t (fq + flip_bit (direction_axis direction) (n - fc)) = Inr q"
        "depth t (fq + flip_bit (direction_axis direction) (n - fc)) = depth t q + 1"
      using mirror [OF q(1) nl] by metis
    have b: "b = fq + flip_bit (direction_axis direction) (n - fc)"
      using step same r(1) rq nl bq(2) less.prems(2) by simp
    have "depth t q = depth t p"
      using less.prems(3) dn bq(6) by (simp add: b)
    then have "adjacent_node t q (opposite direction) = Some (Inr (Some p))"
      using less.IH [OF nr(2) pN] r(1) rq by simp
    then have "adjacent_node t b (opposite direction)
        = Some (some_child t p (flip_bit (direction_axis direction)
                                  (flip_bit (direction_axis direction) (n - fc))))"
      using adjacent_node_non_root [OF wf size D' opp(1) _ _ _ bq(1), of b] bq(3,4,5) same nr(4)
      by (simp add: b opp bit_flip_bit_same)
    then show ?thesis
      using home by (simp add: flip_bit_flip_bit)
  qed
qed

section \<open>Reachable trees are well-formed\<close>

lemma split_Inr:
  assumes "lockstep t" "n < number_of_nodes t" "split t n = Inr t'"
  shows "is_leaf t n" "t' = split_result t n"
proof -
  show "is_leaf t n"
    using assms(3) by (auto simp add: split_def split: if_splits)
  then show "t' = split_result t n"
    using split_eq [OF assms(1,2)] assms(3) by simp
qed

lemma reachable_well_formed:
  assumes "reachable t"
  shows "well_formed t \<and> number_of_nodes t \<le> 2 ^ 64"
  using assms
proof (induction rule: reachable.induct)
  case (fresh D bmin bmax)
  then show ?case
    by (simp add: well_formed_Orthtree) (simp add: number_of_nodes_def Orthtree_def)
next
  case (split t n t')
  then have ls: "lockstep t" by (simp add: well_formed_def)
  note s = split_Inr [OF ls split.hyps(2,3)]
  show ?case
    using well_formed_split_result [OF _ split.hyps(2) s(1)] split.IH split.hyps(4)
    by (simp add: s(2))
qed


section \<open>Point location\<close>

lemma side_ok_Orthtree:
  "length bmin = D \<Longrightarrow> length bmax = D \<Longrightarrow> side_ok (Orthtree D bmin bmax)"
  by (simp add: side_ok_def Orthtree_def)

lemma side_ok_split_result:
  assumes "side_ok t" "n < number_of_nodes t"
  shows "side_ok (split_result t n)"
proof (cases "depth t n + 1 = length (m_side_per_depth t)")
  case False
  then show ?thesis
    using assms by (simp add: side_ok_def split_result_side split_result_params)
next
  case True
  let ?L = "length (m_side_per_depth t)"
  have L: "0 < ?L" using assms(1) by (simp add: side_ok_def)
  have "last (m_side_per_depth t) = m_side_per_depth t ! (?L - 1)"
    using L by (simp add: last_conv_nth)
  also have "\<dots> = map (\<lambda>i. (m_bbox_max t ! i - m_bbox_min t ! i) / 2 ^ (?L - 1)) [0..<Dimension t]"
    using assms(1) L by (simp add: side_ok_def)
  finally have "map (\<lambda>s. s / 2) (last (m_side_per_depth t))
      = map (\<lambda>i. (m_bbox_max t ! i - m_bbox_min t ! i) / 2 ^ ?L) [0..<Dimension t]"
    using L by (cases ?L) simp_all
  then show ?thesis
    using assms True
    by (auto simp add: side_ok_def split_result_side split_result_params nth_append less_Suc_eq)
qed

lemma reachable_side_ok:
  assumes "reachable t"
  shows "side_ok t"
  using assms
proof (induction rule: reachable.induct)
  case (fresh D bmin bmax)
  then show ?case by (simp add: side_ok_Orthtree)
next
  case (split t n t')
  have "lockstep t"
    using reachable_well_formed [OF split.hyps(1)] by (simp add: well_formed_def)
  from split_Inr(2) [OF this split.hyps(2,3)] show ?case
    using side_ok_split_result [OF split.IH split.hyps(2)] by simp
qed

lemma depth_less_side:
  assumes "well_formed t" "n < number_of_nodes t"
  shows "depth t n < length (m_side_per_depth t)"
    and "\<not> is_leaf t n \<Longrightarrow> depth t n + 1 < length (m_side_per_depth t)"
proof -
  have ok: "node_ok t n"
    using assms by (simp add: well_formed_def)
  then show "depth t n < length (m_side_per_depth t)"
    by (simp add: node_ok_def)
  show "depth t n + 1 < length (m_side_per_depth t)" if "\<not> is_leaf t n"
    using ok that by (auto simp add: node_ok_def is_leaf_def)
qed

lemma side_nth:
  assumes "side_ok t" "k < length (m_side_per_depth t)" "i < Dimension t"
  shows "m_side_per_depth t ! k ! i = (m_bbox_max t ! i - m_bbox_min t ! i) / 2 ^ k"
  using assms by (simp add: side_ok_def)

text \<open>The box of a node, in exact arithmetic.\<close>

lemma bbox_exact:
  assumes wf: "well_formed t" and so: "side_ok t" and td: "tree_depth t \<le> 31"
    and n: "n < number_of_nodes t" and i: "i < Dimension t"
  shows "fst (bbox t n) ! i
           = m_bbox_min t ! i
               + of_nat (unat (global_coordinates t n ! i))
                   * ((m_bbox_max t ! i - m_bbox_min t ! i) / 2 ^ depth t n)"
    and "snd (bbox t n) ! i
           = m_bbox_min t ! i
               + (of_nat (unat (global_coordinates t n ! i)) + 1)
                   * ((m_bbox_max t ! i - m_bbox_min t ! i) / 2 ^ depth t n)"
proof -
  let ?c = "global_coordinates t n ! i"
  let ?d = "depth t n"
  have d: "?d < length (m_side_per_depth t)"
    using depth_less_side(1) [OF wf n] .
  then have d31: "?d \<le> 31"
    using td by (simp add: tree_depth_def)
  have td32: "tree_depth t \<le> 32" using td by simp
  have c: "unat ?c < 2 ^ ?d"
    using coordinates_non_root [OF wf td32 n i] by simp
  have p31: "(2 :: nat) ^ ?d \<le> 2 ^ 31"
    using d31 by (intro power_increasing) simp_all
  have side: "m_side_per_depth t ! ?d ! i = (m_bbox_max t ! i - m_bbox_min t ! i) / 2 ^ ?d"
    using side_nth [OF so d i] .
  have "unat ?c < 2 ^ 31"
    using c p31 by simp
  then have "sint ?c = int (unat ?c)"
    by (rule sint_small)
  then have "(of_int (sint ?c) :: rat) = of_nat (unat ?c)"
    by (simp only: of_int_of_nat_eq)
  then show "fst (bbox t n) ! i
           = m_bbox_min t ! i + of_nat (unat ?c) * ((m_bbox_max t ! i - m_bbox_min t ! i) / 2 ^ ?d)"
    using i by (simp add: bbox_def Let_def side)
  show "snd (bbox t n) ! i
           = m_bbox_min t ! i
               + (of_nat (unat ?c) + 1) * ((m_bbox_max t ! i - m_bbox_min t ! i) / 2 ^ ?d)"
  proof (cases "unat ?c = 2 ^ ?d - 1")
    case True
    then have "(of_nat (unat ?c) + 1 :: rat) = 2 ^ ?d"
      by (simp add: of_nat_diff)
    then have "m_bbox_min t ! i
               + (of_nat (unat ?c) + 1) * ((m_bbox_max t ! i - m_bbox_min t ! i) / 2 ^ ?d)
        = m_bbox_max t ! i"
      by simp
    then show ?thesis
      using i True by (simp add: bbox_def Let_def)
  next
    case False
    then have "unat ?c < 2 ^ 31 - 1"
      using c p31 by simp
    then have "sint (?c + 1) = int (unat ?c) + 1"
      using sint_succ by blast
    then have "(of_int (sint (?c + 1)) :: rat) = of_nat (unat ?c) + 1"
      by (simp only: of_int_add of_int_of_nat_eq of_int_1)
    then show ?thesis
      using i False by (simp add: bbox_def Let_def side)
  qed
qed

lemma barycenter_exact:
  assumes wf: "well_formed t" and so: "side_ok t" and td: "tree_depth t \<le> 31"
    and n: "n < number_of_nodes t" "\<not> is_leaf t n" and i: "i < Dimension t"
  shows "barycenter t n ! i
           = m_bbox_min t ! i
               + (2 * of_nat (unat (global_coordinates t n ! i)) + 1)
                   * ((m_bbox_max t ! i - m_bbox_min t ! i) / 2 ^ (depth t n + 1))"
proof -
  let ?c = "global_coordinates t n ! i"
  let ?d = "depth t n"
  have d1: "?d + 1 < length (m_side_per_depth t)"
    using depth_less_side(2) [OF wf n] .
  then have d30: "?d \<le> 30"
    using td by (simp add: tree_depth_def)
  have td32: "tree_depth t \<le> 32" using td by simp
  have c: "unat ?c < 2 ^ ?d"
    using coordinates_non_root [OF wf td32 n(1) i] by simp
  have p30: "(2 :: nat) ^ ?d \<le> 2 ^ 30"
    using d30 by (intro power_increasing) simp_all
  have side: "m_side_per_depth t ! ?d ! i = (m_bbox_max t ! i - m_bbox_min t ! i) / 2 ^ ?d"
    using side_nth [OF so _ i] d1 by simp
  have small: "2 * unat ?c + 1 < 2 ^ 31"
    using c p30 by simp
  then have "unat (2 * ?c + of_bool True) = 2 * unat ?c + of_bool True"
    by (intro unat_double_plus) simp
  then have u: "unat (2 * ?c + 1) = 2 * unat ?c + 1"
    by simp
  then have "sint (2 * ?c + 1) = int (2 * unat ?c + 1)"
    using small sint_small [of "2 * ?c + 1"] by simp
  then have "(of_int (sint (2 * ?c + 1)) :: rat) = 2 * of_nat (unat ?c) + 1"
    by (simp only: of_int_of_nat_eq of_nat_add of_nat_mult of_nat_numeral of_nat_1)
  then show ?thesis
    using i by (simp add: barycenter_def Let_def side)
qed

lemma locate_local_coords_bits:
  assumes "length center = D" "length point = D"
  shows "locate_local_coords hs center point < 2 ^ D"
    and "i < D \<Longrightarrow> bit (locate_local_coords hs center point) i \<longleftrightarrow> hs (center ! i) (point ! i)"
proof -
  let ?bs = "map (\<lambda>(c, x). hs c x) (zip center point)"
  have len: "length ?bs = D" using assms by simp
  have "take_bit D (horner_sum of_bool 2 ?bs) = (horner_sum of_bool 2 (take D ?bs) :: nat)"
    by (rule take_bit_horner_sum_bit_eq)
  then have "take_bit D (locate_local_coords hs center point) = locate_local_coords hs center point"
    using len by (simp add: locate_local_coords_def)
  then show "locate_local_coords hs center point < 2 ^ D"
    by (simp add: take_bit_nat_eq_self_iff)
  show "bit (locate_local_coords hs center point) i \<longleftrightarrow> hs (center ! i) (point ! i)" if "i < D"
    using that assms by (simp add: locate_local_coords_def bit_horner_sum_bit_iff)
qed

lemma length_barycenter: "length (barycenter t n) = Dimension t"
  by (simp add: barycenter_def)

text \<open>One step of the descent keeps the point inside the box of the current node.\<close>

lemma locate_step:
  assumes wf: "well_formed t" and size: "number_of_nodes t \<le> 2 ^ 64" and so: "side_ok t"
    and td: "tree_depth t \<le> 31" and pt: "length point = Dimension t"
    and hs: "\<And>c x. hs c x \<Longrightarrow> c \<le> x" "\<And>c x. \<not> hs c x \<Longrightarrow> x \<le> c"
    and n: "n < number_of_nodes t" "\<not> is_leaf t n"
    and inside: "do_intersect point (bbox t n)"
  shows "\<exists>m. child t n (locate_local_coords hs (barycenter t n) point) = Inr m \<and>
             n < m \<and> m < number_of_nodes t \<and> do_intersect point (bbox t m)"
proof -
  let ?j = "locate_local_coords hs (barycenter t n) point"
  have D1: "1 \<le> Dimension t"
    using wf by (simp add: well_formed_def)
  have td255: "tree_depth t \<le> 255" and td32: "tree_depth t \<le> 32"
    using td by simp_all
  note bits = locate_local_coords_bits [OF length_barycenter [of t n] pt, where hs = hs]
  have j: "?j < Degree t"
    using bits(1) Degree_eq [OF D1] by simp
  obtain fc where m: "m_node_children t ! n = Some fc" "some_child t n ?j = Inr (Some (fc + ?j))"
      "fc + ?j < number_of_nodes t" "fc + ?j \<noteq> 0" "parent t (fc + ?j) = Inr n"
      "depth t (fc + ?j) = depth t n + 1"
    using child_node [OF wf size td255 n j] by metis
  have okn: "node_ok t n"
    using wf n(1) by (simp add: well_formed_def)
  have lt: "n < fc + ?j"
    using okn m(1) by (simp add: node_ok_def)
  have ch: "child t n ?j = Inr (fc + ?j)"
    using m(2) by (auto simp add: some_child_def split: sum.splits)
  have "fst (bbox t (fc + ?j)) ! i \<le> point ! i \<and> point ! i \<le> snd (bbox t (fc + ?j)) ! i"
    if i: "i < Dimension t" for i
  proof -
    let ?X = "m_bbox_max t ! i - m_bbox_min t ! i"
    let ?c = "of_nat (unat (global_coordinates t n ! i)) :: rat"
    let ?b = "hs (barycenter t n ! i) (point ! i)"
    have "unat (global_coordinates t (fc + ?j) ! i)
        = 2 * unat (global_coordinates t n ! i) + of_bool (bit (fc + ?j - fc) i)"
      using coordinates_non_root [OF wf td32 m(3) i, THEN conjunct2, rule_format, OF m(4,5,1)] .
    then have cm: "unat (global_coordinates t (fc + ?j) ! i)
        = 2 * unat (global_coordinates t n ! i) + of_bool ?b"
      using bits(2) [OF i] by simp
    define Y where "Y = ?X / 2 ^ (depth t n + 1)"
    have "x / p = 2 * (x / (p * 2))" for x p :: rat
      by simp
    then have half: "?X / 2 ^ depth t n = 2 * Y"
      unfolding Y_def power_add power_one_right .
    have lo: "fst (bbox t n) ! i = m_bbox_min t ! i + ?c * (2 * Y)"
      and hi: "snd (bbox t n) ! i = m_bbox_min t ! i + (?c + 1) * (2 * Y)"
      using bbox_exact [OF wf so td n(1) i] by (simp_all only: half)
    have lo': "fst (bbox t (fc + ?j)) ! i = m_bbox_min t ! i + (2 * ?c + of_bool ?b) * Y"
      and hi': "snd (bbox t (fc + ?j)) ! i = m_bbox_min t ! i + (2 * ?c + of_bool ?b + 1) * Y"
      using bbox_exact [OF wf so td m(3) i] by (simp_all add: cm m(6) Y_def)
    have mid: "barycenter t n ! i = m_bbox_min t ! i + (2 * ?c + 1) * Y"
      using barycenter_exact [OF wf so td n i] by (simp only: Y_def)
    have p: "fst (bbox t n) ! i \<le> point ! i" "point ! i \<le> snd (bbox t n) ! i"
      using inside i pt by (simp_all add: do_intersect_def)
    show ?thesis
    proof (cases ?b)
      case True
      then have "barycenter t n ! i \<le> point ! i" by (rule hs(1))
      then show ?thesis
        using True p(2) unfolding lo' hi' mid hi by (simp add: algebra_simps)
    next
      case False
      then have "point ! i \<le> barycenter t n ! i" by (rule hs(2))
      then show ?thesis
        using False p(1) unfolding lo' hi' mid lo by (simp add: algebra_simps)
    qed
  qed
  then have "do_intersect point (bbox t (fc + ?j))"
    using pt by (simp add: do_intersect_def)
  then show ?thesis
    using ch lt m(3) by simp
qed

lemma locate_loop_leaf:
  assumes wf: "well_formed t" and size: "number_of_nodes t \<le> 2 ^ 64" and so: "side_ok t"
    and td: "tree_depth t \<le> 31" and pt: "length point = Dimension t"
    and hs: "\<And>c x. hs c x \<Longrightarrow> c \<le> x" "\<And>c x. \<not> hs c x \<Longrightarrow> x \<le> c"
    and n: "n < number_of_nodes t"
    and inside: "do_intersect point (bbox t n)"
  shows "\<exists>l. locate_loop hs t point n = Some (Inr l) \<and> l < number_of_nodes t \<and>
             is_leaf t l \<and> do_intersect point (bbox t l)"
  using n inside
proof (induction "number_of_nodes t - n" arbitrary: n rule: less_induct)
  case less
  show ?case
  proof (cases "is_leaf t n")
    case True
    then have "locate_loop hs t point n = Some (Inr n)"
      by (subst locate_loop.simps) simp
    then show ?thesis
      using True less.prems by simp
  next
    case False
    obtain m where m: "child t n (locate_local_coords hs (barycenter t n) point) = Inr m"
        "n < m" "m < number_of_nodes t" "do_intersect point (bbox t m)"
      using locate_step [OF wf size so td pt hs less.prems(1) False less.prems(2)] by blast
    have "number_of_nodes t - m < number_of_nodes t - n"
      using m(2,3) by simp
    from less.hyps [OF this m(3,4)] obtain l where
      l: "locate_loop hs t point m = Some (Inr l)" "l < number_of_nodes t" "is_leaf t l"
        "do_intersect point (bbox t l)"
      by blast
    have "locate_loop hs t point n = locate_loop hs t point m"
      using False m(1) by (subst locate_loop.simps) (simp add: Let_def)
    then show ?thesis
      using l by simp
  qed
qed


section \<open>Refining twice\<close>

lemma split_quadtree0: "split quadtree0 0 = Inr quadtree1"
proof -
  have "lockstep quadtree0" "0 < number_of_nodes quadtree0" "is_leaf quadtree0 0"
    by (simp_all add: quadtree0_def Orthtree_def lockstep_def number_of_nodes_def is_leaf_def)
  then have "split quadtree0 0 = Inr (split_result quadtree0 0)"
    by (rule split_eq)
  also have "split_result quadtree0 0 = quadtree1"
    by (simp add: split_result_def quadtree0_def quadtree1_def Orthtree_def Degree_def
        extend_side_per_depth_def depth_def number_of_nodes_def child_coordinates_def bitset_def
        upt_4 upt_2 replicate_num bit_Suc_0_iff)
  finally show ?thesis .
qed

lemma refine_quadtree0: "refine split_shallow quadtree0 = Some (Inr quadtree1)"
proof -
  have a: "split_shallow 0 quadtree0"
    by (simp add: split_shallow_def depth_def quadtree0_def Orthtree_def)
  have b: "\<not> split_shallow n quadtree1" if "n \<in> {Suc 0, 2, 3, 4}" for n
    using that by (auto simp add: split_shallow_def depth_def quadtree1_def)
  have c: "all_children quadtree1 0 = Inr [1, 2, 3, 4]"
    by (simp add: all_children_eq [where fc = 1] Degree_def quadtree1_def upt_4)
  have d: "\<not> is_leaf quadtree1 0" "is_leaf quadtree1 (Suc 0)" "is_leaf quadtree1 2"
      "is_leaf quadtree1 3" "is_leaf quadtree1 4"
    by (simp_all add: is_leaf_def quadtree1_def)
  show ?thesis
    by (simp add: refine_def refine_loop.simps a b c d split_quadtree0)
qed

text \<open>
  Claim C1. \<^verbatim>\<open>refine\<close> is to split a dequeued node only when the predicate holds and the
  node is a leaf, so that a second call never reaches \<^verbatim>\<open>split\<close> on an inner node.
  The loop of \<^verbatim>\<open>refine\<close> tests the predicate alone: refining the one-node quadtree with
  "split a node of depth 0" splits the root, and refining the result again with the same
  predicate calls \<^verbatim>\<open>split\<close> on the root, which is no longer a leaf, and the precondition
  of \<^verbatim>\<open>split\<close> fails.
\<close>

theorem refine_twice_splits_inner_node:
  "refine split_shallow quadtree0 = Some (Inr quadtree1) \<and>
   \<not> is_leaf quadtree1 0 \<and>
   refine split_shallow quadtree1 = Some (Inl InvalidSplit)"
proof -
  have a: "split_shallow 0 quadtree1"
    by (simp add: split_shallow_def depth_def quadtree1_def)
  have d: "\<not> is_leaf quadtree1 0"
    by (simp add: is_leaf_def quadtree1_def)
  have "refine split_shallow quadtree1 = Some (Inl InvalidSplit)"
    by (simp add: refine_def refine_loop.simps a d split_def)
  with refine_quadtree0 d show ?thesis by simp
qed

section \<open>Evaluating the accessors on a concrete tree\<close>

lemma child_leaf: "is_leaf t n \<Longrightarrow> child t n i = Inl InvalidChildAccess"
  by (simp add: child_def is_leaf_def)

lemma child_inner:
  "\<not> is_leaf t n \<Longrightarrow> the (m_node_children t ! n) + i < 2 ^ 64
     \<Longrightarrow> child t n i = Inr (the (m_node_children t ! n) + i)"
  by (auto simp add: is_leaf_def child_eq)

lemma all_children_inner:
  "\<not> is_leaf t n \<Longrightarrow> the (m_node_children t ! n) + Degree t \<le> 2 ^ 64
     \<Longrightarrow> all_children t n = Inr (map (\<lambda>i. the (m_node_children t ! n) + i) [0..<Degree t])"
  by (auto simp add: is_leaf_def all_children_eq)

lemmas accessors =
  is_leaf_def is_root_def depth_def global_coordinates_def local_coordinates_def parent_def
  child_inner all_children_inner some_child_def Degree_def root_def

lemma Suc_Suc_0: "Suc (Suc 0) = 2"
  by simp

lemma is_leaf_Orthtree: "is_leaf (Orthtree D bmin bmax) 0"
  by (simp add: is_leaf_def Orthtree_def)

lemma next_sibling_root: "next_sibling t 0 = Inr None"
  by (simp add: next_sibling_def is_root_def)

lemma next_sibling_up_root: "next_sibling_up t 0 = Some (Inr None)"
  by (simp add: next_sibling_up_def)

section \<open>Leaves and the traversals of a one-node tree\<close>

text \<open>
  Claim C10. For a leaf \<open>n\<close>, \<^verbatim>\<open>deepest_first_child(n)\<close> returns \<open>n\<close>; on a freshly
  constructed tree the preorder traversal and the leaves traversal both return the
  one-element sequence of the root.
\<close>

theorem leaf_is_its_deepest_first_child:
  "(is_leaf t n \<longrightarrow> deepest_first_child t n = Some (Inr n)) \<and>
   Preorder_traversal (Orthtree D bmin bmax) = Some (Inr [root]) \<and>
   Leaves_traversal (Orthtree D bmin bmax) = Some (Inr [root])"
proof (intro conjI impI)
  show dfc: "deepest_first_child t n = Some (Inr n)" if "is_leaf t n" for t n
    using that by (subst deepest_first_child.simps) simp
  have "Preorder_next_index (Orthtree D bmin bmax) 0 = Some (Inr None)"
    by (simp add: Preorder_next_index_def is_leaf_Orthtree next_sibling_root next_sibling_up_root)
  then have "traverse_from (Preorder_next_index (Orthtree D bmin bmax)) 0 = Some (Inr [0])"
    by (subst traverse_from.simps) simp
  then show "Preorder_traversal (Orthtree D bmin bmax) = Some (Inr [root])"
    by (simp add: Preorder_traversal_def traverse_def Preorder_first_index_def root_def)
  have "Leaves_next_index (Orthtree D bmin bmax) 0 = Some (Inr None)"
    by (simp add: Leaves_next_index_def next_sibling_root next_sibling_up_root)
  then have "traverse_from (Leaves_next_index (Orthtree D bmin bmax)) 0 = Some (Inr [0])"
    by (subst traverse_from.simps) simp
  then show "Leaves_traversal (Orthtree D bmin bmax) = Some (Inr [root])"
    by (simp add: Leaves_traversal_def traverse_def Leaves_first_index_def root_def
        dfc [OF is_leaf_Orthtree])
qed

theorem leaf_is_its_deepest_first_child_witness:
  "is_leaf quadtree1 2 \<and> deepest_first_child quadtree1 2 = Some (Inr 2) \<and>
   Preorder_traversal quadtree0 = Some (Inr [root]) \<and>
   Leaves_traversal quadtree0 = Some (Inr [root])"
proof -
  have "is_leaf quadtree1 2"
    by (simp add: is_leaf_def quadtree1_def)
  then show ?thesis
    using leaf_is_its_deepest_first_child [of quadtree1 2 2 "[0, 0]" "[4, 4]"]
    by (simp add: quadtree0_def)
qed

section \<open>Level traversal\<close>

text \<open>
  Claim C8. A level traversal of depth \<open>d\<close> is to return the empty sequence when the tree
  has no node of depth \<open>d\<close>. On the one-node quadtree and depth 1,
  \<^verbatim>\<open>first_child_at_depth\<close> returns nothing and \<^verbatim>\<open>first_index\<close> dereferences it.
\<close>

theorem level_traversal_of_missing_depth:
  "first_child_at_depth quadtree0 root 1 = Some (Inr None) \<and>
   Level_traversal quadtree0 1 = Some (Inl EmptyOptionalAccess)"
proof -
  have "first_child_at_depth quadtree0 root 1 = Some (Inr None)"
    by (simp add: first_child_at_depth_def first_child_at_depth_loop.simps root_def depth_def
        is_leaf_def quadtree0_def Orthtree_def)
  then show ?thesis
    by (simp add: Level_traversal_def traverse_def Level_first_index_def)
qed

text \<open>
  The level traversal also stops early: after the last child of node 1 it climbs to
  node 2, finds no node of depth 2 below it, and asks for the next sibling of an
  ancestor of node 2, which skips node 3 and its children 9 to 12.
\<close>

lemma quadtree_uneven_fields:
  "Dimension quadtree_uneven = 2"
  "m_node_depths quadtree_uneven = [0, 1, 1, 1, 1, 2, 2, 2, 2, 2, 2, 2, 2]"
  "m_node_coordinates quadtree_uneven =
     [[0, 0], [0, 0], [1, 0], [0, 1], [1, 1], [0, 0], [1, 0], [0, 1], [1, 1],
      [0, 2], [1, 2], [0, 3], [1, 3]]"
  "m_node_parents quadtree_uneven =
     [None, Some 0, Some 0, Some 0, Some 0, Some 1, Some 1, Some 1, Some 1,
      Some 3, Some 3, Some 3, Some 3]"
  "m_node_children quadtree_uneven =
     [Some 1, Some 5, None, Some 9, None, None, None, None, None, None, None, None, None]"
  "m_side_per_depth quadtree_uneven = [[4, 4], [2, 2], [1, 1]]"
  "m_bbox_min quadtree_uneven = [0, 0]"
  "m_bbox_max quadtree_uneven = [4, 4]"
  by (simp_all add: quadtree_uneven_def)

lemma level_traversal_skips_nodes:
  "Level_traversal quadtree_uneven 2 = Some (Inr [5, 6, 7, 8]) \<and> depth quadtree_uneven 9 = 2"
  by (simp add: Level_traversal_def traverse_def Level_first_index_def first_child_at_depth_def
      first_child_at_depth_loop.simps Level_next_index_def Level_next_up.simps traverse_from.simps
      next_sibling_def next_sibling_up_def next_sibling_up_loop.simps
      accessors quadtree_uneven_fields upt_2 upt_4)

section \<open>The directions of grade\<close>

text \<open>
  Claim C2. \<^verbatim>\<open>grade\<close> is to check each leaf against exactly \<open>2 * D\<close> directions. The
  loop runs over the six values 0 to 5 in every dimension: in dimension 4 the
  directions 6 and 7 (the fourth axis) are never looked at.
\<close>

theorem grade_directions_in_four_dimensions:
  "Dimension hypertree0 = 4 \<and>
   grade_directions hypertree0 = [0, 1, 2, 3, 4, 5] \<and>
   length (grade_directions hypertree0) \<noteq> 2 * Dimension hypertree0 \<and>
   6 \<notin> set (grade_directions hypertree0) \<and> 7 \<notin> set (grade_directions hypertree0)"
  by (simp add: grade_directions_def hypertree0_def Orthtree_def bitset_def upt_6)

lemma grade_directions_in_two_dimensions:
  "grade_directions quadtree0 = [0, 1, 2, 3, 0, 1]"
  by (simp add: grade_directions_def quadtree0_def Orthtree_def bitset_def upt_6)

lemma grade_directions_precondition:
  assumes "1 \<le> Dimension t" "d \<in> set (grade_directions t)"
  shows "d < Dimension t * 2"
proof -
  obtain k where k: "k < 6" "d = take_bit (Dimension t) k"
    using assms(2) by (auto simp add: grade_directions_def bitset_def)
  show ?thesis
  proof (cases "Dimension t \<le> 2")
    case True
    have "d < 2 ^ Dimension t"
      unfolding k by (rule take_bit_nat_less_exp)
    moreover have "(2::nat) ^ Dimension t \<le> Dimension t * 2"
    proof -
      from True assms(1) have "Dimension t = 1 \<or> Dimension t = 2" by arith
      then show ?thesis by auto
    qed
    ultimately show ?thesis by simp
  next
    case False
    have "take_bit (Dimension t) k \<le> k"
      by (rule take_bit_nat_less_eq_self)
    then have "d \<le> k"
      by (simp only: k(2))
    with k(1) False show ?thesis by linarith
  qed
qed

section \<open>Grading\<close>

lemma deep_quadtree_fields:
  "Dimension deep_quadtree = 2"
  "m_node_depths deep_quadtree = [0, 1, 1, 1, 1, 2, 2, 2, 2, 3, 3, 3, 3, 4, 4, 4, 4, 5, 5, 5, 5]"
  "m_node_coordinates deep_quadtree =
         [[0, 0], [0, 0], [1, 0], [0, 1], [1, 1], [0, 0], [1, 0], [0, 1],
          [1, 1], [0, 2], [1, 2], [0, 3], [1, 3], [0, 6], [1, 6], [0, 7],
          [1, 7], [0, 14], [1, 14], [0, 15], [1, 15]]"
  "m_node_parents deep_quadtree =
         [None, Some 0, Some 0, Some 0, Some 0, Some 1, Some 1, Some 1, Some 1,
          Some 7, Some 7, Some 7, Some 7, Some 11, Some 11, Some 11, Some 11,
          Some 15, Some 15, Some 15, Some 15]"
  "m_node_children deep_quadtree =
         [Some 1, Some 5, None, None, None, None, None, Some 9, None, None,
          None, Some 13, None, None, None, Some 17, None, None, None, None, None]"
  "m_side_per_depth deep_quadtree =
         [[4, 4], [2, 2], [1, 1], [1 / 2, 1 / 2], [1 / 4, 1 / 4], [1 / 8, 1 / 8]]"
  by (simp_all add: deep_quadtree_def)

lemma leaves_deep_quadtree:
  "Leaves_traversal deep_quadtree
     = Some (Inr [5, 6, 9, 10, 13, 14, 17, 18, 19, 20, 16, 12, 8, 2, 3, 4])"
  by (simp add: Leaves_traversal_def traverse_def Leaves_first_index_def
      deepest_first_child.simps Leaves_next_index_def some_deepest_first_child_def
      traverse_from.simps next_sibling_def next_sibling_up_def next_sibling_up_loop.simps
      accessors deep_quadtree_fields upt_2 upt_4)

lemma adj_19: "adjacent_node deep_quadtree 19 3 = Some (Inr (Some 3))"
  by (simp add: adjacent_node.simps adjacency_offset_def accessors deep_quadtree_fields upt_2
      Suc_Suc_0 bit_Suc_0_iff)

lemma graded_quadtree_fields:
  "Dimension graded_quadtree = 2"
  "m_node_depths graded_quadtree =
         [0, 1, 1, 1, 1, 2, 2, 2, 2, 3, 3, 3, 3, 4, 4, 4, 4, 5, 5, 5, 5,
          2, 2, 2, 2, 3, 3, 3, 3]"
  "m_node_coordinates graded_quadtree =
         [[0, 0], [0, 0], [1, 0], [0, 1], [1, 1], [0, 0], [1, 0], [0, 1],
          [1, 1], [0, 2], [1, 2], [0, 3], [1, 3], [0, 6], [1, 6], [0, 7],
          [1, 7], [0, 14], [1, 14], [0, 15], [1, 15], [0, 2], [1, 2],
          [0, 3], [1, 3], [0, 4], [1, 4], [0, 5], [1, 5]]"
  "m_node_parents graded_quadtree =
         [None, Some 0, Some 0, Some 0, Some 0, Some 1, Some 1, Some 1,
          Some 1, Some 7, Some 7, Some 7, Some 7, Some 11, Some 11,
          Some 11, Some 11, Some 15, Some 15, Some 15, Some 15, Some 3,
          Some 3, Some 3, Some 3, Some 21, Some 21, Some 21, Some 21]"
  "m_node_children graded_quadtree =
         [Some 1, Some 5, None, Some 21, None, None, None, Some 9, None,
          None, None, Some 13, None, None, None, Some 17, None, None,
          None, None, None, Some 25, None, None, None, None, None, None, None]"
  by (simp_all add: graded_quadtree_def)

lemma grade_deep_quadtree: "grade deep_quadtree = Some (Inr graded_quadtree)"
  apply (simp add: grade_def leaves_deep_quadtree)
  apply (simp add: grade_loop.simps grade_directions_def bitset_def upt_6 same_parent_def
      split_eq split_result_def lockstep_def number_of_nodes_def extend_side_per_depth_def
      child_coordinates_def replicate_num
      adjacent_node.simps adjacency_offset_def accessors deep_quadtree_fields upt_2 upt_4
      Suc_Suc_0 bit_Suc_0_iff)
  apply (simp add: graded_quadtree_def deep_quadtree_def)
  done


lemma refine_deep_quadtree: "refine split_along_edge quadtree0 = Some (Inr deep_quadtree)"
  apply (simp add: refine_def quadtree0_def Orthtree_def)
  apply (simp add: refine_loop.simps split_along_edge_def
      split_eq split_result_def lockstep_def number_of_nodes_def extend_side_per_depth_def
      child_coordinates_def replicate_num bitset_def
      accessors upt_2 upt_4 Suc_Suc_0 bit_Suc_0_iff)
  apply (simp add: deep_quadtree_def)
  done

text \<open>
  Claim C4. After \<^verbatim>\<open>grade\<close>, two adjacent leaves are to differ in depth by at most 1.
  \<^verbatim>\<open>refine\<close> makes \<open>deep_quadtree\<close> from the one-node quadtree, and \<^verbatim>\<open>grade\<close> makes
  \<open>graded_quadtree\<close> from it. There the leaf 19 of depth 5 has, in direction 3 (up), the
  adjacent leaf 25 of depth 3.
\<close>

theorem grade_leaves_depth_difference_two:
  "refine split_along_edge quadtree0 = Some (Inr deep_quadtree) \<and>
   grade deep_quadtree = Some (Inr graded_quadtree) \<and>
   adjacent_node graded_quadtree 19 3 = Some (Inr (Some 25)) \<and>
   is_leaf graded_quadtree 19 \<and> is_leaf graded_quadtree 25 \<and>
   depth graded_quadtree 19 = 5 \<and> depth graded_quadtree 25 = 3"
  by (simp add: refine_deep_quadtree grade_deep_quadtree
      adjacent_node.simps adjacency_offset_def accessors graded_quadtree_fields upt_2
      Suc_Suc_0 bit_Suc_0_iff)

section \<open>Witness trees\<close>

lemmas split_eval =
  split_eq split_result_def lockstep_def number_of_nodes_def extend_side_per_depth_def
  child_coordinates_def replicate_num bitset_def is_leaf_def depth_def Degree_def
  upt_2 upt_4 Suc_Suc_0 bit_Suc_0_iff

lemma split_quadtree1: "split quadtree1 1 = Inr quadtree2"
  by (simp add: split_eval quadtree1_def quadtree2_def)

lemma split_quadtree2: "split quadtree2 3 = Inr quadtree_uneven"
  by (simp add: split_eval quadtree2_def quadtree_uneven_def)

lemma reachable_quadtree1: "reachable quadtree1"
proof -
  have r: "reachable (Orthtree 2 [0, 0] [4, 4])"
    by (rule reachable.fresh) simp_all
  have s: "split (Orthtree 2 [0, 0] [4, 4]) 0 = Inr quadtree1"
    by (simp add: split_eval quadtree1_def Orthtree_def)
  show ?thesis
    by (rule reachable.split [OF r _ s])
      (simp_all add: number_of_nodes_def Orthtree_def quadtree1_def)
qed

lemma reachable_quadtree_uneven: "reachable quadtree_uneven"
proof -
  have "reachable quadtree2"
    by (rule reachable.split [OF reachable_quadtree1 _ split_quadtree1])
      (simp_all add: number_of_nodes_def quadtree1_def quadtree2_def)
  then show ?thesis
    by (rule reachable.split [OF _ _ split_quadtree2])
      (simp_all add: number_of_nodes_def quadtree2_def quadtree_uneven_def)
qed

lemmas adjacency_eval =
  adjacent_node.simps adjacency_offset_def accessors upt_2 Suc_Suc_0 bit_Suc_0_iff

lemma adjacent_quadtree_uneven:
  "adjacent_node quadtree_uneven 9 2 = Some (Inr (Some 7))"
  "adjacent_node quadtree_uneven 7 3 = Some (Inr (Some 9))"
  by (simp_all add: adjacency_eval quadtree_uneven_fields)

text \<open>The tree of dimension 8 with the root split.\<close>

lemma tree8_fields:
  "Dimension tree8 = 8"
  "m_node_depths tree8 = 0 # replicate 256 1"
  "m_node_coordinates tree8
     = replicate 8 0 # map (child_coordinates 8 (replicate 8 0)) [0..<256]"
  "m_node_parents tree8 = None # replicate 256 (Some 0)"
  "m_node_children tree8 = Some 1 # replicate 256 None"
  "number_of_nodes tree8 = 257"
  "length (m_side_per_depth tree8) = 2"
  by (simp_all add: tree8_def tree8_fresh_def split_result_def extend_side_per_depth_def
      Orthtree_def Degree_def number_of_nodes_def depth_def)

lemma reachable_tree8: "reachable tree8"
proof -
  have r: "reachable tree8_fresh"
    unfolding tree8_fresh_def by (rule reachable.fresh) simp_all
  have "lockstep tree8_fresh" "0 < number_of_nodes tree8_fresh" "is_leaf tree8_fresh 0"
    by (simp_all add: tree8_fresh_def Orthtree_def lockstep_def number_of_nodes_def is_leaf_def)
  then have s: "split tree8_fresh 0 = Inr tree8"
    unfolding tree8_def by (rule split_eq)
  show ?thesis
    by (rule reachable.split [OF r _ s])
      (simp_all add: tree8_fields, simp add: tree8_fresh_def number_of_nodes_def Orthtree_def)
qed

lemma tree8_local_coordinates:
  assumes "i < 256"
  shows "local_coordinates tree8 (Suc i) = i"
proof -
  have "m_node_coordinates tree8 ! Suc i = child_coordinates 8 (replicate 8 0) i"
    using assms by (simp add: tree8_fields)
  then show ?thesis
    using assms local_coordinates_child_coordinates [of i 8 "replicate 8 0"]
    by (simp add: local_coordinates_def global_coordinates_def tree8_fields)
qed

lemma tree8_parent:
  assumes "i < 256"
  shows "parent tree8 (Suc i) = Inr 0"
  using assms by (simp add: parent_def is_root_def tree8_fields)

lemma adjacent_tree8_1:
  "adjacent_node tree8 1 15 = Some (Inr (Some 18446744073709551489))"
proof -
  have lc: "local_coordinates tree8 (Suc 0) = 0" and pa: "parent tree8 (Suc 0) = Inr 0"
    using tree8_local_coordinates [of 0] tree8_parent [of 0] by simp_all
  have off: "adjacency_offset 7 True = - 128"
    by (simp add: adjacency_offset_def)
  have ax: "drop_bit (Suc 0) (15 :: nat) mod 256 = 7"
    by (simp add: drop_bit_eq_div)
  show ?thesis
    by (subst adjacent_node.simps)
      (simp add: tree8_fields is_root_def lc pa off ax some_child_def child_def bit_Suc_0_iff)
qed

lemma adjacent_tree8_129:
  "adjacent_node tree8 129 14 = Some (Inr (Some 1))"
proof -
  have lc: "local_coordinates tree8 129 = 128" and pa: "parent tree8 129 = Inr 0"
    using tree8_local_coordinates [of 128] tree8_parent [of 128] by simp_all
  have off: "adjacency_offset 7 False = - 128"
    by (simp add: adjacency_offset_def)
  have ax: "drop_bit (Suc 0) (14 :: nat) mod 256 = 7"
    by (simp add: drop_bit_eq_div)
  show ?thesis
    by (subst adjacent_node.simps)
      (simp add: tree8_fields is_root_def lc pa off ax some_child_def child_def bit_Suc_0_iff)
qed

section \<open>Trees split along a path\<close>

text \<open>
  Splitting the nodes of a list one after the other leads from a tree of the program to a
  tree of the program.
\<close>

lemma reachable_split_all:
  assumes "reachable t" "number_of_nodes t + length ns * Degree t \<le> 2 ^ 64"
  shows "reachable (split_all ns t)"
  using assms
proof (induction ns arbitrary: t)
  case Nil
  then show ?case by (simp add: split_all_def)
next
  case (Cons n ns)
  let ?t = "if n < number_of_nodes t
            then (case split t n of Inl e \<Rightarrow> t | Inr t' \<Rightarrow> t') else t"
  have step: "split_all (n # ns) t = split_all ns ?t"
    by (simp add: split_all_def)
  have ls: "lockstep t"
    using reachable_well_formed [OF Cons.prems(1)] by (simp add: well_formed_def)
  have "reachable ?t \<and> number_of_nodes ?t \<le> number_of_nodes t + Degree t \<and> Degree ?t = Degree t"
  proof (cases "n < number_of_nodes t")
    case False
    then show ?thesis using Cons.prems(1) by simp
  next
    case n: True
    show ?thesis
    proof (cases "split t n")
      case (Inl e)
      then show ?thesis using Cons.prems(1) n by simp
    next
      case (Inr t')
      have t': "t' = split_result t n"
        using split_Inr(2) [OF ls n Inr] .
      have "number_of_nodes t' \<le> 2 ^ 64"
        using Cons.prems(2) by (simp add: t' split_result_params)
      then have "reachable t'"
        by (rule reachable.split [OF Cons.prems(1) n Inr])
      then show ?thesis
        using n Inr by (simp add: t' split_result_params)
    qed
  qed
  then have "reachable (split_all ns ?t)"
    using Cons.prems(2) by (intro Cons.IH) (simp_all add: algebra_simps)
  then show ?case
    by (simp only: step)
qed

text \<open>The arrays of \<^verbatim>\<open>bintree32\<close>: 65 nodes, two on each of the depths 1 to 32.\<close>

lemma bintree32_fields:
  "Dimension bintree32 = 1"
  "m_node_depths bintree32 =
     [0, 1, 1, 2, 2, 3, 3, 4, 4, 5, 5, 6, 6, 7, 7, 8, 8, 9, 9, 10, 10, 11, 11,
      12, 12, 13, 13, 14, 14, 15, 15, 16, 16, 17, 17, 18, 18, 19, 19, 20, 20,
      21, 21, 22, 22, 23, 23, 24, 24, 25, 25, 26, 26, 27, 27, 28, 28, 29, 29,
      30, 30, 31, 31, 32, 32]"
  "m_node_coordinates bintree32 =
     [[0], [0], [1], [2], [3], [4], [5], [8], [9], [16], [17], [32], [33], [64],
      [65], [128], [129], [256], [257], [512], [513], [1024], [1025], [2048],
      [2049], [4096], [4097], [8192], [8193], [16384], [16385], [32768],
      [32769], [65536], [65537], [131072], [131073], [262144], [262145],
      [524288], [524289], [1048576], [1048577], [2097152], [2097153], [4194304],
      [4194305], [8388608], [8388609], [16777216], [16777217], [33554432],
      [33554433], [67108864], [67108865], [134217728], [134217729], [268435456],
      [268435457], [536870912], [536870913], [1073741824], [1073741825],
      [2147483648], [2147483649]]"
  "m_node_parents bintree32 =
     [None, Some 0, Some 0, Some 2, Some 2, Some 3, Some 3, Some 5, Some 5,
      Some 7, Some 7, Some 9, Some 9, Some 11, Some 11, Some 13, Some 13,
      Some 15, Some 15, Some 17, Some 17, Some 19, Some 19, Some 21, Some 21,
      Some 23, Some 23, Some 25, Some 25, Some 27, Some 27, Some 29, Some 29,
      Some 31, Some 31, Some 33, Some 33, Some 35, Some 35, Some 37, Some 37,
      Some 39, Some 39, Some 41, Some 41, Some 43, Some 43, Some 45, Some 45,
      Some 47, Some 47, Some 49, Some 49, Some 51, Some 51, Some 53, Some 53,
      Some 55, Some 55, Some 57, Some 57, Some 59, Some 59, Some 61, Some 61]"
  "m_node_children bintree32 =
     [Some 1, None, Some 3, Some 5, None, Some 7, None, Some 9, None, Some 11,
      None, Some 13, None, Some 15, None, Some 17, None, Some 19, None, Some 21,
      None, Some 23, None, Some 25, None, Some 27, None, Some 29, None, Some 31,
      None, Some 33, None, Some 35, None, Some 37, None, Some 39, None, Some 41,
      None, Some 43, None, Some 45, None, Some 47, None, Some 49, None, Some 51,
      None, Some 53, None, Some 55, None, Some 57, None, Some 59, None, Some 61,
      None, Some 63, None, None, None]"
  "m_bbox_min bintree32 = [0]"
  "m_bbox_max bintree32 = [4294967296]"
  "m_side_per_depth bintree32 =
     [[4294967296], [2147483648], [1073741824], [536870912], [268435456],
      [134217728], [67108864], [33554432], [16777216], [8388608], [4194304],
      [2097152], [1048576], [524288], [262144], [131072], [65536], [32768],
      [16384], [8192], [4096], [2048], [1024], [512], [256], [128], [64], [32],
      [16], [8], [4], [2], [1]]"
  by (simp_all add: bintree32_def split_all_def split_eval Orthtree_def)


lemma reachable_bintree32: "reachable bintree32"
proof -
  have "reachable (Orthtree 1 [0] [4294967296])"
    by (rule reachable.fresh) simp_all
  then show ?thesis
    unfolding bintree32_def
    by (rule reachable_split_all) (simp add: Orthtree_def number_of_nodes_def Degree_def)
qed

lemma split_bintree32: "split bintree32 63 = Inr (split_result bintree32 63)"
  by (rule split_eq) (simp_all add: lockstep_def number_of_nodes_def is_leaf_def bintree32_fields)

lemma bintree33_eq: "bintree33 = split_result bintree32 63"
  by (simp add: bintree33_def split_all_def split_bintree32 number_of_nodes_def bintree32_fields)

lemma bintree33_fields:
  "Dimension bintree33 = 1"
  "m_node_depths bintree33 = m_node_depths bintree32 @ [33, 33]"
  "m_node_coordinates bintree33 = m_node_coordinates bintree32 @ [[0], [1]]"
  "m_node_parents bintree33 = m_node_parents bintree32 @ [Some 63, Some 63]"
  "m_node_children bintree33 = (m_node_children bintree32)[63 := Some 65] @ [None, None]"
  "length (m_side_per_depth bintree33) = 34"
  by (simp_all add: bintree33_eq split_result_params split_result_fields split_result_side
      bintree32_fields Degree_def replicate_num child_coordinates_def bitset_def upt_2
      number_of_nodes_def depth_def bit_Suc_0_iff)

lemma reachable_bintree33: "reachable bintree33"
  unfolding bintree33_eq
  by (rule reachable.split [OF reachable_bintree32 _ split_bintree32])
    (simp_all add: split_result_params, simp_all add: number_of_nodes_def bintree32_fields Degree_def)

text \<open>
  At depth 33 the stored 32-bit coordinates have wrapped. Node 65 of \<^verbatim>\<open>bintree33\<close> lies in the
  middle of the root segment, at position \<open>2 ^ 32\<close> of depth 33; its stored coordinate is 0,
  the coordinate of the lower boundary, and it has an adjacent node in the negative
  direction.
\<close>

lemma adjacent_node_depth_33:
  "reachable bintree33 \<and> tree_depth bintree33 = 33 \<and> depth bintree33 65 = 33 \<and>
   global_coordinates bintree33 65 = [0] \<and> on_boundary bintree33 65 0 \<and>
   adjacent_node bintree33 65 0 = Some (Inr (Some 1))"
proof -
  have "adjacent_node bintree33 65 0 = Some (Inr (Some 1))"
    by (simp add: adjacency_eval bintree33_fields bintree32_fields)
  then show ?thesis
    using reachable_bintree33
    by (simp add: tree_depth_def depth_def global_coordinates_def on_boundary_def
        direction_axis_def direction_sign_def bintree33_fields bintree32_fields)
qed

lemma upt_5: "[0..<5] = [0, 1, 2, 3, 4]"
  by (simp add: upt_rec)

text \<open>The arrays of \<^verbatim>\<open>chain k\<close> are the closed forms, by induction on \<open>k\<close>.\<close>

lemma chain_0: "chain_ok 0 (chain 0)"
  by (simp add: chain_ok_def chain_def chain_nodes_def split_all_def split_eval Orthtree_def
      upt_5 chain_parent_def chain_child_def)

lemma split_all_snoc:
  "split_all (ns @ [n]) t =
     (if n < number_of_nodes (split_all ns t)
      then (case split (split_all ns t) n of Inl e \<Rightarrow> split_all ns t | Inr t' \<Rightarrow> t')
      else split_all ns t)"
  unfolding split_all_def by simp

lemma chain_Suc:
  "chain (Suc k) =
     (if 2 * k + 4 < number_of_nodes (chain k)
      then (case split (chain k) (2 * k + 4) of Inl e \<Rightarrow> chain k | Inr t' \<Rightarrow> t')
      else chain k)"
proof -
  have "chain_nodes (Suc k) = chain_nodes k @ [2 * k + 4]"
    by (simp add: chain_nodes_def)
  then show ?thesis
    by (simp only: chain_def split_all_snoc)
qed

lemma upt_Suc_Suc: "[0..<Suc (Suc n)] = [0..<n] @ [n, Suc n]"
  by simp

lemma chain_ok_split:
  assumes "chain_ok k t"
  shows "split t (2 * k + 4) = Inr (split_result t (2 * k + 4))"
    and "chain_ok (Suc k) (split_result t (2 * k + 4))"
proof -
  let ?N = "2 * k + 5" and ?n = "2 * k + 4"
  have f: "Dimension t = 1"
      "m_node_depths t = map (\<lambda>i. of_nat ((i + 1) div 2)) [0..<?N]"
      "length (m_node_coordinates t) = ?N"
      "m_node_parents t = map chain_parent [0..<?N]"
      "m_node_children t = map (chain_child ?N) [0..<?N]"
      "length (m_side_per_depth t) = min (k + 3) 257"
    using assms by (simp_all add: chain_ok_def)
  have N: "number_of_nodes t = ?N"
    by (simp add: number_of_nodes_def f)
  have n: "?n < number_of_nodes t"
    by (simp add: N)
  have ls: "lockstep t"
    by (simp add: lockstep_def N f)
  have leaf: "is_leaf t ?n"
    by (simp add: is_leaf_def f chain_child_def)
  show "split t ?n = Inr (split_result t ?n)"
    using ls n leaf by (rule split_eq)
  have Deg: "Degree t = 2"
    by (simp add: Degree_def f)
  have "2 * Suc k + 5 = Suc (Suc ?N)"
    by simp
  then have up: "[0..<2 * Suc k + 5] = [0..<?N] @ [?N, Suc ?N]"
    by (simp only: upt_Suc_Suc)
  have d2: "(2 * k + 5) div 2 = k + 2" "(2 * k + 6) div 2 = k + 3" "(2 * k + 7) div 2 = k + 3"
    by simp_all
  have depths: "m_node_depths (split_result t ?n)
      = map (\<lambda>i. of_nat ((i + 1) div 2)) [0..<2 * Suc k + 5]"
    unfolding up by (simp add: split_result_fields Deg f replicate_num d2 nth_append)
  have parents: "m_node_parents (split_result t ?n) = map chain_parent [0..<2 * Suc k + 5]"
    unfolding up by (simp add: split_result_fields Deg f replicate_num chain_parent_def d2)
  have children: "m_node_children (split_result t ?n)
      = map (chain_child (2 * Suc k + 5)) [0..<2 * Suc k + 5]"
  proof (rule nth_equalityI)
    show "length (m_node_children (split_result t ?n))
        = length (map (chain_child (2 * Suc k + 5)) [0..<2 * Suc k + 5])"
      by (simp add: split_result_fields Deg f)
  next
    fix i assume "i < length (m_node_children (split_result t ?n))"
    then have i: "i < ?N + 2"
      by (simp add: split_result_fields Deg f)
    show "m_node_children (split_result t ?n) ! i
        = map (chain_child (2 * Suc k + 5)) [0..<2 * Suc k + 5] ! i"
    proof (cases "i < ?N")
      case True
      then show ?thesis
        using i by (auto simp add: split_result_fields Deg f N nth_append nth_list_update
            chain_child_def)
    next
      case False
      then have "i = ?N \<or> i = ?N + 1" using i by arith
      then show ?thesis
        by (auto simp add: split_result_fields Deg f N nth_append chain_child_def
            replicate_num)
    qed
  qed
  have "m_node_depths t ! ?n = (of_nat (k + 2) :: 8 word)"
    by (simp add: f d2)
  then have "depth t ?n = unat (of_nat (k + 2) :: 8 word)"
    by (simp only: depth_def)
  also have "\<dots> = (k + 2) mod 256"
    by (simp only: unat_of_nat) simp
  finally have dep: "depth t ?n = (k + 2) mod 256" .
  have side: "length (m_side_per_depth (split_result t ?n)) = min (Suc k + 3) 257"
  proof (cases "k + 2 \<le> 255")
    case True
    then show ?thesis
      by (simp add: split_result_side [OF n] dep f)
  next
    case False
    have "(k + 2) mod 256 < 256" by simp
    then have "(k + 2) mod 256 + 1 \<noteq> 257" by simp
    then show ?thesis
      using False by (simp add: split_result_side [OF n] dep f)
  qed
  show "chain_ok (Suc k) (split_result t ?n)"
    unfolding chain_ok_def
    using depths parents children side by (simp add: split_result_params split_result_fields f Deg)
qed

lemma chain_ok_chain: "chain_ok k (chain k)"
proof (induction k)
  case 0
  show ?case by (rule chain_0)
next
  case (Suc k)
  have "number_of_nodes (chain k) = 2 * k + 5"
    using Suc by (simp add: chain_ok_def number_of_nodes_def)
  then have "chain (Suc k) = split_result (chain k) (2 * k + 4)"
    using chain_ok_split(1) [OF Suc] by (simp add: chain_Suc)
  then show ?case
    using chain_ok_split(2) [OF Suc] by simp
qed

lemma reachable_chain:
  assumes "2 * k + 5 \<le> 2 ^ 64"
  shows "reachable (chain k)"
proof -
  have "reachable (Orthtree 1 [0] [1])"
    by (rule reachable.fresh) simp_all
  then show ?thesis
    unfolding chain_def
    by (rule reachable_split_all)
      (use assms in \<open>simp add: Orthtree_def number_of_nodes_def Degree_def chain_nodes_def\<close>)
qed

text \<open>
  In \<^verbatim>\<open>chain k\<close>, the upper child on every level of the path has node 2, the upper child of
  the root and a leaf, as its adjacent node in the positive direction.
\<close>

lemma adjacent_node_chain:
  assumes k: "2 * k + 5 \<le> 2 ^ 64" and j: "j \<le> k"
  shows "adjacent_node (chain k) (2 * j + 4) (Suc 0) = Some (Inr (Some 2))"
  using j
proof (induction j)
  case 0
  let ?t = "chain k"
  have wf: "well_formed ?t" and size: "number_of_nodes ?t \<le> 2 ^ 64"
    using reachable_well_formed [OF reachable_chain [OF k]] by simp_all
  have f: "Dimension ?t = 1" "number_of_nodes ?t = 2 * k + 5"
      "m_node_parents ?t = map chain_parent [0..<2 * k + 5]"
      "m_node_children ?t = map (chain_child (2 * k + 5)) [0..<2 * k + 5]"
    using chain_ok_chain [of k] by (simp_all add: chain_ok_def number_of_nodes_def)
  have ax: "direction_axis 1 = 0" "direction_sign 1"
      "direction_axis (Suc 0) = 0" "direction_sign (Suc 0)"
    by (simp_all add: direction_axis_def direction_sign_def bit_Suc_0_iff)
  have one: "adjacent_node ?t (Suc 0) (Suc 0) = Some (Inr (Some 2))"
    by (subst adjacent_node_non_root [OF wf size, where p = 0 and fc = 1])
      (simp_all add: ax f parent_def is_root_def chain_parent_def chain_child_def flip_bit_eq_if
        set_bit_eq)
  have leaf: "is_leaf ?t 2"
    by (simp add: is_leaf_def f chain_child_def)
  show ?case
    by (subst adjacent_node_non_root [OF wf size, where p = 1 and fc = 3])
      (simp_all add: ax f parent_def is_root_def chain_parent_def chain_child_def one leaf bit_Suc_0_iff)
next
  case (Suc j)
  let ?t = "chain k"
  have wf: "well_formed ?t" and size: "number_of_nodes ?t \<le> 2 ^ 64"
    using reachable_well_formed [OF reachable_chain [OF k]] by simp_all
  have f: "Dimension ?t = 1" "number_of_nodes ?t = 2 * k + 5"
      "m_node_parents ?t = map chain_parent [0..<2 * k + 5]"
      "m_node_children ?t = map (chain_child (2 * k + 5)) [0..<2 * k + 5]"
    using chain_ok_chain [of k] by (simp_all add: chain_ok_def number_of_nodes_def)
  have ax: "direction_axis 1 = 0" "direction_sign 1"
      "direction_axis (Suc 0) = 0" "direction_sign (Suc 0)"
    by (simp_all add: direction_axis_def direction_sign_def bit_Suc_0_iff)
  have IH: "adjacent_node ?t (2 * j + 4) (Suc 0) = Some (Inr (Some 2))"
    using Suc by simp
  have leaf: "is_leaf ?t 2"
    by (simp add: is_leaf_def f chain_child_def)
  have d2: "(2 * j + 5) div 2 = j + 2" by simp
  show ?case
    by (subst adjacent_node_non_root [OF wf size, where p = "2 * j + 4" and fc = "2 * j + 5"])
      (use Suc.prems in \<open>simp_all add: ax f parent_def is_root_def chain_parent_def chain_child_def
        IH leaf d2 bit_Suc_0_iff\<close>)
qed


text \<open>
  At depth 256 the stored 8-bit depths have wrapped. In \<^verbatim>\<open>chain 254\<close> node 512 is 256 levels
  below the root and has the stored depth 0; its adjacent node 2 has depth 1. In
  \<^verbatim>\<open>chain 255\<close> node 514 is 257 levels below the root and has the stored depth 1, the depth
  of its adjacent node 2, a leaf; the adjacent node of node 2 in the opposite direction is
  node 1.
\<close>

lemma chain_depth_256:
  "reachable (chain 254) \<and> tree_depth (chain 254) = 256 \<and>
   adjacent_node (chain 254) 512 1 = Some (Inr (Some 2)) \<and>
   depth (chain 254) 512 = 0 \<and> depth (chain 254) 2 = 1"
proof -
  have f: "m_node_depths (chain 254) = map (\<lambda>i. of_nat ((i + 1) div 2)) [0..<2 * 254 + 5]"
      "length (m_side_per_depth (chain 254)) = min (254 + 3) 257"
    using chain_ok_chain [of 254] by (simp_all only: chain_ok_def)
  have "adjacent_node (chain 254) (2 * 254 + 4) (Suc 0) = Some (Inr (Some 2))"
    by (rule adjacent_node_chain) simp_all
  moreover have "reachable (chain 254)"
    by (rule reachable_chain) simp
  ultimately show ?thesis
    by (simp add: tree_depth_def depth_def f)
qed

lemma chain_depth_257:
  "reachable (chain 255) \<and> tree_depth (chain 255) = 256 \<and>
   adjacent_node (chain 255) 514 1 = Some (Inr (Some 2)) \<and>
   is_leaf (chain 255) 2 \<and> depth (chain 255) 2 = depth (chain 255) 514 \<and>
   adjacent_node (chain 255) 2 (opposite 1) = Some (Inr (Some 1))"
proof -
  let ?t = "chain 255"
  have f: "m_node_depths ?t = map (\<lambda>i. of_nat ((i + 1) div 2)) [0..<2 * 255 + 5]"
      "length (m_side_per_depth ?t) = min (255 + 3) 257"
      "Dimension ?t = 1" "number_of_nodes ?t = 2 * 255 + 5"
      "m_node_parents ?t = map chain_parent [0..<2 * 255 + 5]"
      "m_node_children ?t = map (chain_child (2 * 255 + 5)) [0..<2 * 255 + 5]"
    using chain_ok_chain [of 255]
    by (simp_all only: chain_ok_def number_of_nodes_def length_map length_upt diff_zero)
  have r: "reachable ?t"
    by (rule reachable_chain) simp
  have wf: "well_formed ?t" and size: "number_of_nodes ?t \<le> 2 ^ 64"
    using reachable_well_formed [OF r] by simp_all
  have a: "adjacent_node ?t (2 * 255 + 4) (Suc 0) = Some (Inr (Some 2))"
    by (rule adjacent_node_chain) simp_all
  have o: "opposite (Suc 0) = 0"
    by (simp add: opposite_def flip_bit_eq_xor)
  have b: "adjacent_node ?t 2 0 = Some (Inr (Some 1))"
    by (subst adjacent_node_non_root [OF wf size, where p = 0 and fc = 1])
      (simp_all add: f parent_def is_root_def chain_parent_def chain_child_def flip_bit_eq_xor
        direction_axis_def direction_sign_def bit_Suc_0_iff)
  show ?thesis
    using r a b by (simp add: tree_depth_def depth_def f o is_leaf_def chain_child_def)
qed

section \<open>The coordinate invariant\<close>

text \<open>
  Claim C5. In every tree built by the constructor and splits, a node \<open>n\<close> other than the
  root is the child of its parent \<open>p\<close> at the position \<open>n - fc\<close> among its siblings, its local
  coordinates are that position, and on every axis \<open>i\<close> its global coordinate is twice that
  of \<open>p\<close> plus bit \<open>i\<close> of the position (in 32-bit arithmetic, as the source computes it).
\<close>

theorem child_coordinates_invariant:
  assumes "reachable t" "n < number_of_nodes t" "n \<noteq> root"
  shows "\<exists>p fc. parent t n = Inr p \<and> m_node_children t ! p = Some fc \<and>
           fc \<le> n \<and> n - fc < Degree t \<and> child t p (n - fc) = Inr n \<and>
           local_coordinates t n = n - fc \<and>
           (\<forall>i<Dimension t.
              global_coordinates t n ! i
                = 2 * global_coordinates t p ! i + of_bool (bit (n - fc) i))"
proof -
  have wf: "well_formed t" and size: "number_of_nodes t \<le> 2 ^ 64"
    using reachable_well_formed [OF assms(1)] by simp_all
  have n0: "n \<noteq> 0" using assms(3) by (simp add: root_def)
  obtain p fc where nr: "parent t n = Inr p" "m_node_children t ! p = Some fc"
    "fc \<le> n" "n < fc + Degree t" "local_coordinates t n = n - fc"
    "m_node_coordinates t ! n = child_coordinates (Dimension t) (m_node_coordinates t ! p) (n - fc)"
    using well_formed_non_root [OF wf assms(2) n0] by metis
  have D1: "1 \<le> Dimension t"
    using wf by (simp add: well_formed_def)
  have j: "n - fc < 2 ^ Dimension t"
    using nr(3,4) Degree_eq [OF D1] by simp
  have "fc + (n - fc) < 2 ^ 64"
    using nr(3) assms(2) size by simp
  then have "child t p (n - fc) = Inr n"
    using nr(2,3) by (simp add: child_eq)
  moreover have "global_coordinates t n ! i
      = 2 * global_coordinates t p ! i + of_bool (bit (n - fc) i)" if "i < Dimension t" for i
    using that j by (simp add: global_coordinates_def nr(6) child_coordinates_def bitset_def
        bit_take_bit_iff)
  ultimately show ?thesis
    using nr(1-5) by auto
qed

theorem child_coordinates_invariant_witness:
  "reachable quadtree_uneven \<and> 10 < number_of_nodes quadtree_uneven \<and> 10 \<noteq> root \<and>
   parent quadtree_uneven 10 = Inr 3 \<and> m_node_children quadtree_uneven ! 3 = Some 9 \<and>
   child quadtree_uneven 3 1 = Inr 10 \<and> local_coordinates quadtree_uneven 10 = 1 \<and>
   global_coordinates quadtree_uneven 10 ! 0 = 2 * global_coordinates quadtree_uneven 3 ! 0 + 1 \<and>
   global_coordinates quadtree_uneven 10 ! 1 = 2 * global_coordinates quadtree_uneven 3 ! 1"
proof -
  have h: "10 < number_of_nodes quadtree_uneven" "10 \<noteq> root"
    by (simp_all add: number_of_nodes_def root_def quadtree_uneven_fields)
  obtain p fc where *: "parent quadtree_uneven 10 = Inr p"
      "m_node_children quadtree_uneven ! p = Some fc"
      "child quadtree_uneven p (10 - fc) = Inr 10"
      "local_coordinates quadtree_uneven 10 = 10 - fc"
      "\<forall>i<Dimension quadtree_uneven.
              global_coordinates quadtree_uneven 10 ! i
                = 2 * global_coordinates quadtree_uneven p ! i + of_bool (bit (10 - fc) i)"
    using child_coordinates_invariant [OF reachable_quadtree_uneven h] by blast
  have p: "p = 3" using *(1) by (simp add: parent_def is_root_def quadtree_uneven_fields)
  have fc: "fc = 9" using *(2) by (simp add: p quadtree_uneven_fields)
  have "global_coordinates quadtree_uneven 10 ! 0 = 2 * global_coordinates quadtree_uneven 3 ! 0 + 1"
    "global_coordinates quadtree_uneven 10 ! 1 = 2 * global_coordinates quadtree_uneven 3 ! 1"
    using *(5) [rule_format, of 0] *(5) [rule_format, of 1]
    by (simp_all add: p fc quadtree_uneven_fields bit_Suc_0_iff)
  then show ?thesis
    using * h reachable_quadtree_uneven by (simp add: p fc)
qed


section \<open>Adjacency\<close>

text \<open>
  Directions whose axis is at most 6, in a tree of depth at most 255. The root has no
  adjacent node. For another node \<open>n\<close>, \<^verbatim>\<open>adjacent_node\<close> returns, without error, either
  nothing or a node \<open>b\<close> of the tree with \<open>depth b \<le> depth n\<close>. Up to depth 32, where the
  stored coordinates give the position, it returns nothing exactly when the coordinate of
  \<open>n\<close> along the axis is that of the boundary of the root region in the direction.
\<close>

lemma adjacent_node_equal_or_larger:
  assumes "reachable t" "n < number_of_nodes t"
    "direction < Dimension t * 2" "direction_axis direction \<le> 6" "tree_depth t \<le> 255"
  shows "(n = root \<longrightarrow> adjacent_node t n direction = Some (Inr None)) \<and>
         (n \<noteq> root \<longrightarrow>
            (\<exists>r. adjacent_node t n direction = Some (Inr r) \<and>
                 (tree_depth t \<le> 32 \<longrightarrow> (r = None \<longleftrightarrow> on_boundary t n direction)) \<and>
                 (\<forall>b. r = Some b \<longrightarrow> b < number_of_nodes t \<and> depth t b \<le> depth t n)))"
proof -
  have wf: "well_formed t" and size: "number_of_nodes t \<le> 2 ^ 64"
    using reachable_well_formed [OF assms(1)] by simp_all
  show ?thesis
    using adjacent_node_spec [OF wf size assms(4,5,3,2)] adjacent_node_root [OF assms(3)]
    by (auto simp add: root_def)
qed

lemma adjacent_node_equal_or_larger_quadtree_uneven:
  "reachable quadtree_uneven \<and> 9 < number_of_nodes quadtree_uneven \<and>
   2 < Dimension quadtree_uneven * 2 \<and> direction_axis 2 \<le> 6 \<and>
   tree_depth quadtree_uneven \<le> 32 \<and> 9 \<noteq> root \<and>
   adjacent_node quadtree_uneven 9 2 = Some (Inr (Some 7)) \<and>
   \<not> on_boundary quadtree_uneven 9 2 \<and>
   7 < number_of_nodes quadtree_uneven \<and> depth quadtree_uneven 7 \<le> depth quadtree_uneven 9"
proof -
  have h: "9 < number_of_nodes quadtree_uneven" "2 < Dimension quadtree_uneven * 2"
      "direction_axis 2 \<le> 6" "tree_depth quadtree_uneven \<le> 255"
    and td: "tree_depth quadtree_uneven \<le> 32"
    by (simp_all add: number_of_nodes_def direction_axis_def tree_depth_def
        quadtree_uneven_fields drop_bit_eq_div)
  have n: "9 \<noteq> root" by (simp add: root_def)
  obtain r where r: "adjacent_node quadtree_uneven 9 2 = Some (Inr r)"
      "r = None \<longleftrightarrow> on_boundary quadtree_uneven 9 2"
      "\<forall>b. r = Some b \<longrightarrow> b < number_of_nodes quadtree_uneven \<and>
            depth quadtree_uneven b \<le> depth quadtree_uneven 9"
    using adjacent_node_equal_or_larger [OF reachable_quadtree_uneven h] n td by blast
  have "r = Some 7"
    using r(1) adjacent_quadtree_uneven(1) by simp
  then show ?thesis
    using r h n td reachable_quadtree_uneven by simp
qed

text \<open>
  Claim C3. For a node \<open>n\<close> other than the root that does not lie on the boundary of the root
  region in a direction, \<^verbatim>\<open>adjacent_node\<close> is to return a node \<open>b\<close>, with \<open>depth b \<le> depth n\<close>.
  The offset \<^verbatim>\<open>(uint8_t) 1 << dimension\<close> is stored in an \<^verbatim>\<open>int8_t\<close>: on axis 7 it is \<open>- 128\<close>
  and not 128. In the tree of dimension 8 with the root split, node 1 has the coordinate 0
  on axis 7 and the sibling 129 above it; the search from node 1 in direction 15 (axis 7,
  positive) asks for the child \<open>0 - 128\<close> of the root, and returns the index \<open>2 ^ 64 - 127\<close>,
  which is not a node of the tree.
\<close>

theorem adjacent_node_axis_7_returns_no_node:
  "reachable tree8 \<and> Dimension tree8 = 8 \<and> 1 < number_of_nodes tree8 \<and> 1 \<noteq> root \<and>
   15 < Dimension tree8 * 2 \<and> direction_axis 15 = 7 \<and> direction_sign 15 \<and>
   adjacency_offset 7 True = - 128 \<and> \<not> on_boundary tree8 1 15 \<and>
   adjacent_node tree8 1 15 = Some (Inr (Some 18446744073709551489)) \<and>
   \<not> 18446744073709551489 < number_of_nodes tree8"
  using reachable_tree8 adjacent_tree8_1
  by (simp add: tree8_fields direction_axis_def direction_sign_def root_def drop_bit_eq_div
      adjacency_offset_def on_boundary_def global_coordinates_def depth_def number_of_nodes_def
      child_coordinates_def bitset_def)

text \<open>
  Directions whose axis is at most 6, in a tree of depth at most 255: if
  \<^verbatim>\<open>adjacent_node(a, dir)\<close> returns \<open>b\<close>, and \<open>b\<close> has the depth of \<open>a\<close>, then
  \<^verbatim>\<open>adjacent_node(b, opposite(dir))\<close> returns \<open>a\<close>.
\<close>

lemma adjacent_node_opposite:
  assumes "reachable t" "a < number_of_nodes t"
    "dir < Dimension t * 2" "direction_axis dir \<le> 6" "tree_depth t \<le> 255"
    "adjacent_node t a dir = Some (Inr (Some b))" "depth t b = depth t a"
  shows "adjacent_node t b (opposite dir) = Some (Inr (Some a))"
proof -
  have wf: "well_formed t" and size: "number_of_nodes t \<le> 2 ^ 64"
    using reachable_well_formed [OF assms(1)] by simp_all
  show ?thesis
    using adjacent_node_symmetric [OF wf size assms(4,5,3,2,6,7)] .
qed

lemma adjacent_node_opposite_quadtree_uneven:
  "reachable quadtree_uneven \<and> 9 < number_of_nodes quadtree_uneven \<and>
   2 < Dimension quadtree_uneven * 2 \<and> direction_axis 2 \<le> 6 \<and>
   tree_depth quadtree_uneven \<le> 255 \<and>
   adjacent_node quadtree_uneven 9 2 = Some (Inr (Some 7)) \<and> is_leaf quadtree_uneven 7 \<and>
   depth quadtree_uneven 7 = depth quadtree_uneven 9 \<and> opposite 2 = 3 \<and>
   adjacent_node quadtree_uneven 7 (opposite 2) = Some (Inr (Some 9))"
proof -
  have h: "9 < number_of_nodes quadtree_uneven" "2 < Dimension quadtree_uneven * 2"
      "direction_axis 2 \<le> 6" "tree_depth quadtree_uneven \<le> 255"
    by (simp_all add: number_of_nodes_def direction_axis_def tree_depth_def
        quadtree_uneven_fields drop_bit_eq_div)
  have l: "is_leaf quadtree_uneven 7" "depth quadtree_uneven 7 = depth quadtree_uneven 9"
    by (simp_all add: is_leaf_def depth_def quadtree_uneven_fields)
  have o: "opposite 2 = 3"
    by (simp add: opposite_def flip_bit_eq_xor)
  show ?thesis
    using adjacent_node_opposite [OF reachable_quadtree_uneven h adjacent_quadtree_uneven(1) l(2)]
      h l o reachable_quadtree_uneven adjacent_quadtree_uneven(1)
    by simp
qed

text \<open>
  Claim C9. If \<^verbatim>\<open>adjacent_node(a, dir)\<close> returns \<open>b\<close>, and \<open>b\<close> is a leaf of the depth of \<open>a\<close>,
  then \<^verbatim>\<open>adjacent_node(b, opposite(dir))\<close> is to return \<open>a\<close>. With the offset \<open>- 128\<close> of
  axis 7 the negative direction finds the sibling and the positive direction does not: in
  the tree of dimension 8 with the root split, node 1 is the adjacent node of node 129 in
  direction 14, a leaf of the same depth, and the search back from node 1 in direction 15
  returns the index \<open>2 ^ 64 - 127\<close> and not node 129.
\<close>

theorem adjacent_node_axis_7_not_symmetric:
  "reachable tree8 \<and> 129 < number_of_nodes tree8 \<and> 14 < Dimension tree8 * 2 \<and>
   direction_axis 14 = 7 \<and> opposite 14 = 15 \<and>
   adjacent_node tree8 129 14 = Some (Inr (Some 1)) \<and> is_leaf tree8 1 \<and>
   depth tree8 1 = depth tree8 129 \<and>
   adjacent_node tree8 1 (opposite 14) = Some (Inr (Some 18446744073709551489)) \<and>
   adjacent_node tree8 1 (opposite 14) \<noteq> Some (Inr (Some 129))"
proof -
  have o: "opposite 14 = 15"
    by (simp add: opposite_def flip_bit_eq_xor)
  show ?thesis
    using reachable_tree8 adjacent_tree8_1 adjacent_tree8_129
    by (simp add: o tree8_fields direction_axis_def is_leaf_def depth_def
        drop_bit_eq_div number_of_nodes_def)
qed

section \<open>Bounding boxes\<close>

text \<open>
  In a tree of depth at most 31 the corners of \<^verbatim>\<open>bbox(n)\<close> are those of the coordinates: along
  axis \<open>i\<close> the max corner is the max corner of the root box when the coordinate of \<open>n\<close> is
  \<open>2 ^ depth - 1\<close>, and otherwise the min corner of the root box plus (coordinate + 1) times
  the side length of that depth; the min corner is never snapped.
\<close>

lemma bbox_corners_in_range:
  assumes r: "reachable t" and td: "tree_depth t \<le> 31"
    and n: "n < number_of_nodes t" and i: "i < Dimension t"
  shows "snd (bbox t n) ! i =
           (if unat (global_coordinates t n ! i) = 2 ^ depth t n - 1
            then m_bbox_max t ! i
            else m_bbox_min t ! i
                   + (of_nat (unat (global_coordinates t n ! i)) + 1)
                       * (m_side_per_depth t ! depth t n ! i))"
    and "fst (bbox t n) ! i =
           m_bbox_min t ! i
             + of_nat (unat (global_coordinates t n ! i)) * (m_side_per_depth t ! depth t n ! i)"
proof -
  let ?c = "global_coordinates t n ! i"
  let ?d = "depth t n"
  have wf: "well_formed t"
    using reachable_well_formed [OF r] by simp
  have d: "?d < length (m_side_per_depth t)"
    using depth_less_side(1) [OF wf n] .
  then have d31: "?d \<le> 31"
    using td by (simp add: tree_depth_def)
  have td32: "tree_depth t \<le> 32" using td by simp
  have c: "unat ?c < 2 ^ ?d"
    using coordinates_non_root [OF wf td32 n i] by simp
  have p31: "(2 :: nat) ^ ?d \<le> 2 ^ 31"
    using d31 by (intro power_increasing) simp_all
  have "unat ?c < 2 ^ 31"
    using c p31 by simp
  then have "sint ?c = int (unat ?c)"
    by (rule sint_small)
  then have "(of_int (sint ?c) :: rat) = of_nat (unat ?c)"
    by (simp only: of_int_of_nat_eq)
  then show "fst (bbox t n) ! i =
           m_bbox_min t ! i + of_nat (unat ?c) * (m_side_per_depth t ! ?d ! i)"
    using i by (simp add: bbox_def Let_def)
  show "snd (bbox t n) ! i =
           (if unat ?c = 2 ^ ?d - 1
            then m_bbox_max t ! i
            else m_bbox_min t ! i + (of_nat (unat ?c) + 1) * (m_side_per_depth t ! ?d ! i))"
  proof (cases "unat ?c = 2 ^ ?d - 1")
    case True
    then show ?thesis
      using i by (simp add: bbox_def Let_def)
  next
    case False
    then have "unat ?c < 2 ^ 31 - 1"
      using c p31 by simp
    then have "sint (?c + 1) = int (unat ?c) + 1"
      using sint_succ by blast
    then have "(of_int (sint (?c + 1)) :: rat) = of_nat (unat ?c) + 1"
      by (simp only: of_int_add of_int_of_nat_eq of_int_1)
    then show ?thesis
      using i False by (simp add: bbox_def Let_def)
  qed
qed

lemma bbox_corners_quadtree1:
  "snd (bbox quadtree1 2) ! 0 = 4 \<and> snd (bbox quadtree1 2) ! 1 = 2 \<and>
   fst (bbox quadtree1 2) ! 0 = 2 \<and> fst (bbox quadtree1 2) ! 1 = 0"
  using bbox_corners_in_range [OF reachable_quadtree1, of 2 1]
    bbox_corners_in_range [OF reachable_quadtree1, of 2 0]
  by (simp add: quadtree1_def depth_def global_coordinates_def tree_depth_def number_of_nodes_def)

text \<open>
  Claim C7. Along axis \<open>i\<close> the max corner of \<^verbatim>\<open>bbox(n)\<close> is to be the max corner of the root
  box when the coordinate of \<open>n\<close> is \<open>2 ^ depth - 1\<close>, and the min corner of the root box plus
  (coordinate + 1) times the side length of that depth otherwise. \<^verbatim>\<open>bbox\<close> compares the
  coordinate with \<open>2 ^ depth - 1\<close> as a \<^verbatim>\<open>std::size_t\<close> and multiplies it as an \<^verbatim>\<open>int\<close>. Node 64
  of \<^verbatim>\<open>bintree32\<close> has depth 32 and the coordinate \<open>2 ^ 31 + 1\<close>, which is not \<open>2 ^ 32 - 1\<close>: the
  max corner is to be \<open>0 + (2 ^ 31 + 2) * 1\<close>, and \<^verbatim>\<open>bbox\<close> returns \<open>- 2 ^ 31 + 2\<close>; the min
  corner is to be \<open>2 ^ 31 + 1\<close>, and \<^verbatim>\<open>bbox\<close> returns \<open>- 2 ^ 31 + 1\<close>.
\<close>

theorem bbox_depth_32_max_corner:
  "reachable bintree32 \<and> Dimension bintree32 = 1 \<and> depth bintree32 64 = 32 \<and>
   global_coordinates bintree32 64 = [2147483649] \<and>
   unat (global_coordinates bintree32 64 ! 0) \<noteq> 2 ^ depth bintree32 64 - 1 \<and>
   m_bbox_min bintree32 ! 0
     + (of_nat (unat (global_coordinates bintree32 64 ! 0)) + 1)
         * (m_side_per_depth bintree32 ! depth bintree32 64 ! 0) = 2147483650 \<and>
   snd (bbox bintree32 64) ! 0 = - 2147483646 \<and>
   fst (bbox bintree32 64) ! 0 = - 2147483647"
  using reachable_bintree32
  by (simp add: bbox_def depth_def global_coordinates_def bintree32_fields)

section \<open>Locating a point\<close>

lemma locate_bintree32:
  "locate (<) bintree32 [4294967297 / 2] = Some (Inr 64)"
  by (simp add: locate_def locate_loop.simps barycenter_def locate_local_coords_def bbox_def
      do_intersect_def is_leaf_def depth_def global_coordinates_def child_inner
      root_def bintree32_fields)

text \<open>
  In a tree of depth at most 31 and for a point within the root box, \<^verbatim>\<open>locate\<close> descends
  from the root, choosing at each inner node the child given by the half-space predicate
  applied per axis to the barycenter and the point, and returns a leaf whose box contains
  the point. The half-space predicate is supplied by the traits: it returns true only for
  points at or above the centre and false only for points at or below it. Up to depth 31
  the 32-bit signed readings of the coordinates in \<^verbatim>\<open>bbox\<close> and \<^verbatim>\<open>barycenter\<close> are the
  coordinates themselves.
\<close>

lemma locate_returns_containing_leaf:
  assumes "reachable t" "tree_depth t \<le> 31" "length point = Dimension t"
    and "\<forall>c x. (locate_halfspace c x \<longrightarrow> c \<le> x) \<and> (\<not> locate_halfspace c x \<longrightarrow> x \<le> c)"
    and "do_intersect point (bbox t root)"
  shows "\<exists>l. locate locate_halfspace t point = Some (Inr l) \<and> l < number_of_nodes t \<and>
             is_leaf t l \<and> do_intersect point (bbox t l)"
proof -
  have wf: "well_formed t" and size: "number_of_nodes t \<le> 2 ^ 64"
    using reachable_well_formed [OF assms(1)] by simp_all
  have so: "side_ok t"
    using assms(1) by (rule reachable_side_ok)
  have r: "root < number_of_nodes t"
    using wf by (simp add: well_formed_def root_def)
  have hs: "\<And>c x. locate_halfspace c x \<Longrightarrow> c \<le> x" "\<And>c x. \<not> locate_halfspace c x \<Longrightarrow> x \<le> c"
    using assms(4) by blast+
  show ?thesis
    using locate_loop_leaf [OF wf size so assms(2,3) hs r assms(5)] assms(5)
    by (simp add: locate_def)
qed

lemma locate_quadtree_uneven:
  "do_intersect [1 / 2, 5 / 2] (bbox quadtree_uneven root) \<and>
   locate (<) quadtree_uneven [1 / 2, 5 / 2] = Some (Inr 9) \<and>
   is_leaf quadtree_uneven 9 \<and>
   do_intersect [1 / 2, 5 / 2] (bbox quadtree_uneven 9)"
  by (simp add: locate_def locate_loop.simps barycenter_def locate_local_coords_def bbox_def
      do_intersect_def All_less_Suc is_leaf_def depth_def global_coordinates_def child_inner
      root_def upt_2 quadtree_uneven_fields)

lemma locate_returns_containing_leaf_quadtree_uneven:
  "reachable quadtree_uneven \<and> tree_depth quadtree_uneven \<le> 31 \<and>
   length [1 / 2, 5 / 2 :: rat] = Dimension quadtree_uneven \<and>
   do_intersect [1 / 2, 5 / 2] (bbox quadtree_uneven root) \<and>
   locate (<) quadtree_uneven [1 / 2, 5 / 2] = Some (Inr 9) \<and>
   9 < number_of_nodes quadtree_uneven \<and> is_leaf quadtree_uneven 9 \<and>
   do_intersect [1 / 2, 5 / 2] (bbox quadtree_uneven 9)"
proof -
  have h: "tree_depth quadtree_uneven \<le> 31"
      "length [1 / 2, 5 / 2 :: rat] = Dimension quadtree_uneven"
    by (simp_all add: tree_depth_def quadtree_uneven_fields)
  have c: "\<forall>c x :: rat. (c < x \<longrightarrow> c \<le> x) \<and> (\<not> c < x \<longrightarrow> x \<le> c)"
    by auto
  have i: "do_intersect [1 / 2, 5 / 2] (bbox quadtree_uneven root)"
    using locate_quadtree_uneven by simp
  obtain l where l: "locate (<) quadtree_uneven [1 / 2, 5 / 2] = Some (Inr l)"
      "l < number_of_nodes quadtree_uneven" "is_leaf quadtree_uneven l"
      "do_intersect [1 / 2, 5 / 2] (bbox quadtree_uneven l)"
    using locate_returns_containing_leaf [OF reachable_quadtree_uneven h c i] by blast
  have "l = 9"
    using l(1) locate_quadtree_uneven by simp
  then show ?thesis
    using l h i reachable_quadtree_uneven by simp
qed

text \<open>
  Claim C6. For a point within the root box, \<^verbatim>\<open>locate\<close> is to return a leaf whose box
  contains the point. \<^verbatim>\<open>barycenter\<close> and \<^verbatim>\<open>bbox\<close> read the 32-bit coordinates as \<^verbatim>\<open>int\<close>. In
  \<^verbatim>\<open>bintree32\<close>, of depth 32, the point \<open>2 ^ 31 + 1 / 2\<close> lies in the root segment from 0 to
  \<open>2 ^ 32\<close>. At node 61, of depth 31 and coordinate \<open>2 ^ 30\<close>, the barycenter is to be
  \<open>2 ^ 31 + 1\<close> and is read as \<open>- 2 ^ 31 + 1\<close>, so that \<^verbatim>\<open>locate\<close> returns the upper child 64
  and not the lower child 63; the box of node 64 is read as the segment from \<open>- 2 ^ 31 + 1\<close>
  to \<open>- 2 ^ 31 + 2\<close>, which does not contain the point.
\<close>

theorem locate_depth_32_returns_wrong_leaf:
  "reachable bintree32 \<and> tree_depth bintree32 = 32 \<and>
   bbox bintree32 root = ([0], [4294967296]) \<and>
   depth bintree32 61 = 31 \<and> global_coordinates bintree32 61 = [1073741824] \<and>
   barycenter bintree32 61 = [- 2147483647] \<and>
   locate (<) bintree32 [4294967297 / 2] = Some (Inr 64) \<and>
   is_leaf bintree32 64 \<and> bbox bintree32 64 = ([- 2147483647], [- 2147483646])"
  using reachable_bintree32 locate_bintree32
  by (simp add: bbox_def barycenter_def depth_def global_coordinates_def root_def tree_depth_def
      is_leaf_def bintree32_fields)

lemma locate_depth_32_misses_point:
  "do_intersect [4294967297 / 2] (bbox bintree32 root) \<and>
   locate (<) bintree32 [4294967297 / 2] = Some (Inr 64) \<and>
   \<not> do_intersect [4294967297 / 2] (bbox bintree32 64)"
proof -
  have "bbox bintree32 64 = ([- 2147483647], [- 2147483646])"
    by (simp add: bbox_def depth_def global_coordinates_def bintree32_fields)
  moreover have "bbox bintree32 root = ([0], [4294967296])"
    by (simp add: bbox_def depth_def global_coordinates_def root_def bintree32_fields)
  ultimately show ?thesis
    using locate_bintree32 by (simp add: do_intersect_def)
qed

end
